theory Spec2Isabelle
  imports Complex_Main
begin

section \<open>schedule-task-mcp: data model\<close>

text \<open>
  Instants are JavaScript time values: whole milliseconds since the epoch. A stored
  timestamp is the ISO-8601 text that \<^verbatim>\<open>toISOString\<close> writes; it is identified with the
  instant that \<^verbatim>\<open>new Date(text)\<close> reads back from it.
\<close>

type_synonym instant = int

text \<open>
  A JavaScript number is an IEEE double. A finite double is modelled by the rational it
  denotes, and every arithmetic operation rounds its exact result to the nearest double:
  53 significant bits, a tie going to the even significand, multiples of \<open>2 powi -1074\<close>
  below \<open>2 powi -1022\<close>. Negative zero is zero. A result of magnitude \<open>2 ^ 1024\<close> or more,
  which JavaScript replaces by an infinity, is kept as it is: in the operations that the
  program applies it compares with every finite number, and fails the range test of a
  Date, as the infinity does. NaN is not a value of the model; it would arise only from
  the difference of two infinities.
\<close>

function bitLength :: "int \<Rightarrow> int" where
  "bitLength n = (if n \<le> 0 then 0 else 1 + bitLength (n div 2))"
  by auto

termination
  by (relation "measure nat") auto

declare bitLength.simps [simp del]

text \<open>For \<open>x > 0\<close>, the exponent \<open>e\<close> with \<open>2 powi e \<le> x < 2 powi (e + 1)\<close>.\<close>

definition binaryExponent :: "rat \<Rightarrow> int" where
  "binaryExponent x =
     (if 1 \<le> x then bitLength \<lfloor>x\<rfloor> - 1 else - bitLength (\<lceil>1 / x\<rceil> - 1))"

definition roundHalfEven :: "rat \<Rightarrow> int" where
  "roundHalfEven z =
     (let f = \<lfloor>z\<rfloor>; r = z - of_int f
      in if r < 1 / 2 then f else if 1 / 2 < r then f + 1 else if even f then f else f + 1)"

definition toDouble :: "rat \<Rightarrow> rat" where
  "toDouble x =
     (if x = 0 then 0
      else (let ulp = 2 powi (max (binaryExponent \<bar>x\<bar>) (- 1022) - 52)
            in of_int (roundHalfEven (x / ulp)) * ulp))"

text \<open>The rationals that are values of a Number: those that rounding leaves as they
  are.\<close>

definition isDouble :: "rat \<Rightarrow> bool" where
  "isDouble x = (toDouble x = x)"

text \<open>The operators \<^verbatim>\<open>+\<close>, \<^verbatim>\<open>*\<close> and \<^verbatim>\<open>/\<close> on numbers.\<close>

definition num_add :: "rat \<Rightarrow> rat \<Rightarrow> rat" where
  "num_add x y = toDouble (x + y)"

definition num_mul :: "rat \<Rightarrow> rat \<Rightarrow> rat" where
  "num_mul x y = toDouble (x * y)"

definition num_div :: "rat \<Rightarrow> rat \<Rightarrow> rat" where
  "num_div x y = toDouble (x / y)"

text \<open>A \<^verbatim>\<open>Date\<close> object: \<open>None\<close> is the Invalid Date (time value NaN).\<close>

type_synonym jsdate = "instant option"

datatype thrown = Thrown (err_name: string) (err_message: string) (err_code: "int option")

definition Error :: "string \<Rightarrow> thrown" where
  "Error msg = Thrown ''Error'' msg None"

definition RangeError :: thrown where
  "RangeError = Thrown ''RangeError'' ''Invalid time value'' None"

text \<open>\<^verbatim>\<open>new Date(number)\<close>: TimeClip cuts the number to an integer (towards zero) and
  gives the Invalid Date beyond 8.64e15 ms.\<close>

definition truncate_ms :: "rat \<Rightarrow> int" where
  "truncate_ms x = (if 0 \<le> x then \<lfloor>x\<rfloor> else \<lceil>x\<rceil>)"

definition newDate :: "rat \<Rightarrow> jsdate" where
  "newDate x = (if \<bar>x\<bar> \<le> 8640000000000000 then Some (truncate_ms x) else None)"

text \<open>\<^verbatim>\<open>Date.prototype.toISOString\<close> throws a RangeError on the Invalid Date.\<close>

definition toISOString :: "jsdate \<Rightarrow> thrown + instant" where
  "toISOString d = (case d of None \<Rightarrow> Inl RangeError | Some t \<Rightarrow> Inr t)"

text \<open>JSON values as the tool arguments carry them; an object is its list of
  properties.\<close>

datatype json = JNull | JBool bool | JNum rat | JStr string | JArr "json list"
  | JObj "(string \<times> json) list"

datatype TriggerType = interval | cron | date | other_trigger

datatype TaskStatus = S_scheduled | S_running | S_paused | S_completed | S_error

datatype LastStatus = L_success | L_error | L_running

datatype HistoryStatus = H_success | H_error

record TaskHistoryEntry =
  run_at :: instant
  status_h :: HistoryStatus
  message_h :: "string option"

text \<open>\<^verbatim>\<open>trigger_config: Record<string, any>\<close>, read by the scheduler through the
  properties below; an absent property is \<open>None\<close>. For \<open>run_date\<close>, \<open>None\<close> also
  stands for a text that \<^verbatim>\<open>new Date\<close> cannot parse.\<close>

record TriggerConfig =
  seconds :: "rat option"
  minutes :: "rat option"
  hours :: "rat option"
  days :: "rat option"
  expression :: "string option"
  run_date :: "instant option"

definition emptyConfig :: TriggerConfig where
  "emptyConfig = \<lparr>seconds = None, minutes = None, hours = None, days = None,
     expression = None, run_date = None\<rparr>"

text \<open>The columns of table \<^verbatim>\<open>tasks\<close> (type \<^verbatim>\<open>TaskRow\<close>). \<open>None\<close> is SQL NULL; for
  \<open>updated_at\<close>, declared NOT NULL, \<open>None\<close> is the empty (falsy) text.\<close>

record TaskRow =
  task_id :: string
  trigger_type :: TriggerType
  trigger_config :: TriggerConfig
  mcp_server :: "string option"
  mcp_tool :: "string option"
  mcp_arguments :: "json option"
  agent_prompt :: "string option"
  enabled :: bool
  status :: TaskStatus
  created_at :: instant
  updated_at :: "instant option"
  last_run :: "instant option"
  last_status :: "LastStatus option"
  last_message :: "string option"
  next_run :: "instant option"

text \<open>The in-memory \<^verbatim>\<open>TaskRecord\<close>: the columns, the history array (absent, or a list
  newest first) and the \<^verbatim>\<open>name\<close> that \<^verbatim>\<open>createTask\<close> attaches and the store does not keep.\<close>

record TaskRecord = TaskRow +
  name :: "string option"
  history :: "TaskHistoryEntry list option"

text \<open>What the program takes from outside: the cron library (\<open>cronNext\<close>: the next
  occurrence after an instant in the configured zone, \<open>None\<close> when the parser throws),
  \<^verbatim>\<open>Number(text)\<close> (\<open>None\<close> is NaN), \<^verbatim>\<open>new Date(text)\<close> (\<open>None\<close> is the Invalid
  Date), the text that a template string prints for an integer beyond \<open>2 ^ 53\<close> (the
  shortest digits that read back as the same double, in exponent notation from 1e21
  on), the environment variable \<^verbatim>\<open>SCHEDULE_TASK_SAMPLING_TIMEOUT\<close>, and whether an MCP
  server is attached.\<close>

record Host =
  cronNext :: "string \<Rightarrow> instant \<Rightarrow> instant option"
  cronValidate :: "string \<Rightarrow> bool"
  toNumber :: "string \<Rightarrow> rat option"
  parseDate :: "string \<Rightarrow> instant option"
  largeNumberText :: "int \<Rightarrow> string"
  timeoutEnv :: "string option"
  mcpServer :: bool

text \<open>The constructor of \<^verbatim>\<open>TaskScheduler\<close>:
  \<^verbatim>\<open>Number.isFinite(parsedTimeout) && parsedTimeout > 0 ? parsedTimeout : 180_000\<close>,
  where an unset or empty variable gives NaN.\<close>

definition samplingTimeoutMs :: "Host \<Rightarrow> rat" where
  "samplingTimeoutMs H =
     (case timeoutEnv H of
        None \<Rightarrow> 180000
      | Some text \<Rightarrow>
          (if text = [] then 180000
           else (case toNumber H text of
                   None \<Rightarrow> 180000
                 | Some parsedTimeout \<Rightarrow>
                     if \<bar>parsedTimeout\<bar> < 2 ^ 1024 \<and> parsedTimeout > 0 then parsedTimeout
                     else 180000)))"

section \<open>Trigger evaluation (scheduler.ts)\<close>

definition HISTORY_LIMIT :: nat where
  "HISTORY_LIMIT = 10"

text \<open>\<^verbatim>\<open>if (config.seconds)\<close>: a property counts when it is present and not zero.\<close>

definition truthy :: "rat option \<Rightarrow> bool" where
  "truthy v = (v \<noteq> None \<and> v \<noteq> Some 0)"

definition computeIntervalMs :: "TriggerConfig \<Rightarrow> rat" where
  "computeIntervalMs config =
     (let intervalMs = 0;
          intervalMs = (if truthy (seconds config)
                        then num_add intervalMs (num_mul (the (seconds config)) 1000)
                        else intervalMs);
          intervalMs = (if truthy (minutes config)
                        then num_add intervalMs (num_mul (num_mul (the (minutes config)) 60) 1000)
                        else intervalMs);
          intervalMs = (if truthy (hours config)
                        then num_add intervalMs
                               (num_mul (num_mul (num_mul (the (hours config)) 60) 60) 1000)
                        else intervalMs);
          intervalMs = (if truthy (days config)
                        then num_add intervalMs
                               (num_mul (num_mul (num_mul (num_mul (the (days config)) 24) 60) 60) 1000)
                        else intervalMs)
      in intervalMs)"

text \<open>\<^verbatim>\<open>if (task.next_run) { const existing = new Date(task.next_run); if (existing > fromDate)\<close>\<close>

definition plannedAfter :: "instant option \<Rightarrow> instant \<Rightarrow> bool" where
  "plannedAfter planned fromDate =
     (case planned of None \<Rightarrow> False | Some existing \<Rightarrow> existing > fromDate)"

text \<open>In the cron branch the library call sits in a try block: \<open>cronNext H e t = None\<close>
  is a throw of the parser, caught there and turned into \<^verbatim>\<open>undefined\<close>; a missing
  expression makes the parser throw as well.\<close>

definition computeNextRun ::
  "Host \<Rightarrow> 'a TaskRecord_scheme \<Rightarrow> instant \<Rightarrow> thrown + instant option" where
  "computeNextRun H task fromDate =
     (if \<not> enabled task \<or> status task = S_completed then Inr (next_run task)
      else case trigger_type task of
        interval \<Rightarrow>
          (if plannedAfter (next_run task) fromDate then Inr (next_run task)
           else let intervalMs = computeIntervalMs (trigger_config task) in
             if intervalMs \<le> 0 then Inr None
             else (case toISOString (newDate (num_add (of_int fromDate) intervalMs)) of
                     Inl err \<Rightarrow> Inl err
                   | Inr stamp \<Rightarrow> Inr (Some stamp)))
      | cron \<Rightarrow>
          (if plannedAfter (next_run task) fromDate then Inr (next_run task)
           else case expression (trigger_config task) of
               None \<Rightarrow> Inr None
             | Some e \<Rightarrow> Inr (cronNext H e fromDate))
      | date \<Rightarrow>
          (case run_date (trigger_config task) of
             None \<Rightarrow> Inl RangeError
           | Some runDate \<Rightarrow> if runDate \<le> fromDate then Inr None else Inr (Some runDate))
      | other_trigger \<Rightarrow> Inr None)"


text \<open>\<^verbatim>\<open>appendHistory\<close>: \<^verbatim>\<open>unshift\<close> the entry, then \<^verbatim>\<open>slice(0, HISTORY_LIMIT)\<close>.\<close>

definition appendHistory :: "TaskRecord \<Rightarrow> TaskHistoryEntry \<Rightarrow> TaskRecord" where
  "appendHistory task entry =
     (let h = (case history task of None \<Rightarrow> [] | Some h \<Rightarrow> h);
          h = entry # h
      in task\<lparr>history := Some (if length h > HISTORY_LIMIT then take HISTORY_LIMIT h else h)\<rparr>)"

text \<open>\<^verbatim>\<open>task.history && task.history[0]?.status === 'success'\<close>\<close>

definition newestIsSuccess :: "TaskHistoryEntry list option \<Rightarrow> bool" where
  "newestIsSuccess h = (case h of Some (e # es) \<Rightarrow> status_h e = H_success | _ \<Rightarrow> False)"

definition determineStatus :: "TaskRecord \<Rightarrow> instant \<Rightarrow> TaskStatus" where
  "determineStatus task now =
     (if \<not> enabled task then (if status task = S_completed then S_completed else S_paused)
      else if status task = S_running then S_running
      else if trigger_type task = date then
        (if newestIsSuccess (history task) then S_completed
         else if (case run_date (trigger_config task) of None \<Rightarrow> False | Some runDate \<Rightarrow> runDate \<le> now)
         then S_completed
         else S_scheduled)
      else if last_status task = Some L_error then S_error
      else S_scheduled)"

text \<open>\<^verbatim>\<open>normaliseTask\<close> reads the clock twice: \<open>now\<close> at entry, \<open>now2\<close> for a missing
  \<open>updated_at\<close>.\<close>

definition normaliseTask :: "Host \<Rightarrow> TaskRecord \<Rightarrow> instant \<Rightarrow> instant \<Rightarrow> thrown + TaskRecord" where
  "normaliseTask H task now now2 =
     (let task = (case history task of
                    Some h \<Rightarrow> if length h > HISTORY_LIMIT
                              then task\<lparr>history := Some (take HISTORY_LIMIT h)\<rparr> else task
                  | None \<Rightarrow> task);
          task = task\<lparr>status := determineStatus task now\<rparr>;
          task = (if trigger_type task = date \<and> status task = S_completed
                  then task\<lparr>enabled := False\<rparr> else task)
      in case computeNextRun H task now of
           Inl err \<Rightarrow> Inl err
         | Inr nextRun \<Rightarrow>
             Inr (task\<lparr>next_run := nextRun,
                       updated_at := (case updated_at task of None \<Rightarrow> Some now2 | Some u \<Rightarrow> Some u)\<rparr>))"

section \<open>The durable store (storage.ts)\<close>

text \<open>Table \<^verbatim>\<open>task_history\<close>: \<open>hist_id\<close> is the AUTOINCREMENT key. Both tables are
  lists in rowid order; \<open>history_seq\<close> is the largest key handed out so far. The
  statements of the store do not fail here: the types of the rows carry the NOT NULL
  constraints, and a transaction is one step.\<close>

record HistoryRow =
  hist_id :: nat
  hist_task_id :: string
  hist_run_at :: instant
  hist_status :: HistoryStatus
  hist_message :: "string option"

record Store =
  tasks :: "TaskRow list"
  task_history :: "HistoryRow list"
  history_seq :: nat

definition emptyStore :: Store where
  "emptyStore = \<lparr>tasks = [], task_history = [], history_seq = 0\<rparr>"

text \<open>JavaScript truthiness of a JSON value.\<close>

definition js_truthy :: "json \<Rightarrow> bool" where
  "js_truthy v = (case v of JNull \<Rightarrow> False | JBool b \<Rightarrow> b | JNum n \<Rightarrow> n \<noteq> 0
     | JStr s \<Rightarrow> s \<noteq> [] | JArr xs \<Rightarrow> True | JObj kvs \<Rightarrow> True)"

text \<open>The fifteen values bound by \<^verbatim>\<open>insert.run\<close>. Serialising \<open>trigger_config\<close> and
  parsing it back is the identity of the model; \<open>mcp_arguments\<close> is stored only when
  truthy.\<close>

definition rowOfTask :: "TaskRecord \<Rightarrow> TaskRow" where
  "rowOfTask task =
     \<lparr>task_id = task_id task,
      trigger_type = trigger_type task,
      trigger_config = trigger_config task,
      mcp_server = mcp_server task,
      mcp_tool = mcp_tool task,
      mcp_arguments = (case mcp_arguments task of
                         Some v \<Rightarrow> if js_truthy v then Some v else None | None \<Rightarrow> None),
      agent_prompt = agent_prompt task,
      enabled = enabled task,
      status = status task,
      created_at = created_at task,
      updated_at = updated_at task,
      last_run = last_run task,
      last_status = last_status task,
      last_message = last_message task,
      next_run = next_run task\<rparr>"

fun insertHistory :: "string \<Rightarrow> TaskHistoryEntry list \<Rightarrow> HistoryRow list \<times> nat \<Rightarrow> HistoryRow list \<times> nat" where
  "insertHistory tid [] (rows, seq) = (rows, seq)"
| "insertHistory tid (entry # entries) (rows, seq) =
     insertHistory tid entries
       (rows @ [\<lparr>hist_id = Suc seq, hist_task_id = tid, hist_run_at = run_at entry,
                 hist_status = status_h entry, hist_message = message_h entry\<rparr>], Suc seq)"

text \<open>\<^verbatim>\<open>INSERT ... ON CONFLICT(id) DO UPDATE\<close> keeps the place of an existing row; the
  history rows of the task are replaced only when \<^verbatim>\<open>task.history\<close> is an array.\<close>

definition upsertRow :: "TaskRow \<Rightarrow> TaskRow list \<Rightarrow> TaskRow list" where
  "upsertRow row rows =
     (if \<exists>r \<in> set rows. task_id r = task_id row
      then map (\<lambda>r. if task_id r = task_id row then row else r) rows
      else rows @ [row])"

definition upsert :: "Store \<Rightarrow> TaskRecord \<Rightarrow> Store" where
  "upsert db task =
     (let db = db\<lparr>tasks := upsertRow (rowOfTask task) (tasks db)\<rparr>
      in case history task of
           None \<Rightarrow> db
         | Some entries \<Rightarrow>
             (let kept = filter (\<lambda>h. hist_task_id h \<noteq> task_id task) (task_history db);
                  (rows, seq) = insertHistory (task_id task) entries (kept, history_seq db)
              in db\<lparr>task_history := rows, history_seq := seq\<rparr>))"

text \<open>\<^verbatim>\<open>loadHistory\<close>: the rows of the given tasks \<^verbatim>\<open>ORDER BY run_at DESC\<close> (rows with
  equal \<open>run_at\<close> stay in rowid order), grouped by task in a \<^verbatim>\<open>Map\<close>.\<close>

definition entryOfRow :: "HistoryRow \<Rightarrow> TaskHistoryEntry" where
  "entryOfRow row = \<lparr>run_at = hist_run_at row, status_h = hist_status row,
     message_h = hist_message row\<rparr>"

definition selectHistory :: "Store \<Rightarrow> string list \<Rightarrow> HistoryRow list" where
  "selectHistory db taskIds =
     sort_key (\<lambda>h. - hist_run_at h) (filter (\<lambda>h. hist_task_id h \<in> set taskIds) (task_history db))"

definition orEmpty :: "'a list option \<Rightarrow> 'a list" where
  "orEmpty v = (case v of None \<Rightarrow> [] | Some xs \<Rightarrow> xs)"

text \<open>The body of the grouping loop: create the list of the task when the map has
  none, then push the entry.\<close>

definition pushEntry ::
  "(string \<rightharpoonup> TaskHistoryEntry list) \<Rightarrow> HistoryRow \<Rightarrow> (string \<rightharpoonup> TaskHistoryEntry list)" where
  "pushEntry historyMap row =
     historyMap(hist_task_id row \<mapsto> orEmpty (historyMap (hist_task_id row)) @ [entryOfRow row])"

definition loadHistory :: "Store \<Rightarrow> string list \<Rightarrow> (string \<rightharpoonup> TaskHistoryEntry list)" where
  "loadHistory db taskIds =
     (if taskIds = [] then Map.empty
      else foldl pushEntry Map.empty (selectHistory db taskIds))"

definition mapRowToTask :: "TaskRow \<Rightarrow> TaskHistoryEntry list \<Rightarrow> TaskRecord" where
  "mapRowToTask row h =
     \<lparr>task_id = task_id row,
      trigger_type = trigger_type row,
      trigger_config = trigger_config row,
      mcp_server = mcp_server row,
      mcp_tool = mcp_tool row,
      mcp_arguments = mcp_arguments row,
      agent_prompt = agent_prompt row,
      enabled = enabled row,
      status = status row,
      created_at = created_at row,
      updated_at = updated_at row,
      last_run = last_run row,
      last_status = last_status row,
      last_message = last_message row,
      next_run = next_run row,
      name = None,
      history = Some h\<rparr>"

definition get :: "Store \<Rightarrow> string \<Rightarrow> TaskRecord option" where
  "get db i =
     (case find (\<lambda>r. task_id r = i) (tasks db) of
        None \<Rightarrow> None
      | Some row \<Rightarrow> Some (mapRowToTask row (orEmpty (loadHistory db [i] i))))"

text \<open>\<^verbatim>\<open>SELECT * FROM tasks ORDER BY created_at ASC\<close>\<close>

definition listAll :: "Store \<Rightarrow> TaskRecord list" where
  "listAll db =
     (let rows = sort_key created_at (tasks db)
      in if rows = [] then []
         else (let historyMap = loadHistory db (map task_id rows)
               in map (\<lambda>row. mapRowToTask row (orEmpty (historyMap (task_id row)))) rows))"

definition clearHistory :: "Store \<Rightarrow> string \<Rightarrow> instant \<Rightarrow> Store \<times> TaskRecord option" where
  "clearHistory db i now =
     (let db = db\<lparr>task_history := filter (\<lambda>h. hist_task_id h \<noteq> i) (task_history db)\<rparr>;
          db = db\<lparr>tasks := map (\<lambda>r. if task_id r = i
                                     then r\<lparr>last_run := None, last_status := None,
                                            last_message := None, updated_at := Some now\<rparr>
                                     else r) (tasks db)\<rparr>
      in (db, get db i))"

definition delete :: "Store \<Rightarrow> string \<Rightarrow> Store \<times> bool" where
  "delete db i =
     (db\<lparr>task_history := filter (\<lambda>h. hist_task_id h \<noteq> i) (task_history db),
         tasks := filter (\<lambda>r. task_id r \<noteq> i) (tasks db)\<rparr>,
      \<exists>r \<in> set (tasks db). task_id r = i)"

text \<open>\<^verbatim>\<open>updateStatus\<close>: a field of the patch is \<open>None\<close> when it is \<^verbatim>\<open>undefined\<close>,
  \<open>Some None\<close> when it is \<^verbatim>\<open>null\<close>, and \<open>Some (Some v)\<close> otherwise. The SET clause is
  the list of assignments collected from the patch.\<close>

record StatusPatch =
  patch_last_run :: "instant option option"
  patch_last_status :: "LastStatus option option"
  patch_last_message :: "string option option"
  patch_next_run :: "instant option option"

datatype assignment =
    Set_last_run "instant option"
  | Set_last_status "LastStatus option"
  | Set_last_message "string option"
  | Set_next_run "instant option"
  | Set_updated_at instant

fun assign :: "TaskRow \<Rightarrow> assignment \<Rightarrow> TaskRow" where
  "assign r (Set_last_run v) = r\<lparr>last_run := v\<rparr>"
| "assign r (Set_last_status v) = r\<lparr>last_status := v\<rparr>"
| "assign r (Set_last_message v) = r\<lparr>last_message := v\<rparr>"
| "assign r (Set_next_run v) = r\<lparr>next_run := v\<rparr>"
| "assign r (Set_updated_at v) = r\<lparr>updated_at := Some v\<rparr>"

definition patchFields :: "StatusPatch \<Rightarrow> assignment list" where
  "patchFields patch =
     (case patch_last_run patch of None \<Rightarrow> [] | Some v \<Rightarrow> [Set_last_run v])
     @ (case patch_last_status patch of None \<Rightarrow> [] | Some v \<Rightarrow> [Set_last_status v])
     @ (case patch_last_message patch of None \<Rightarrow> [] | Some v \<Rightarrow> [Set_last_message v])
     @ (case patch_next_run patch of None \<Rightarrow> [] | Some v \<Rightarrow> [Set_next_run v])"

definition updateStatus :: "Store \<Rightarrow> string \<Rightarrow> StatusPatch \<Rightarrow> instant \<Rightarrow> Store" where
  "updateStatus db i patch now =
     (let fields = patchFields patch
      in if length fields = 0 then db
         else (let fields = fields @ [Set_updated_at now]
               in db\<lparr>tasks := map (\<lambda>r. if task_id r = i then foldl assign r fields else r)
                                  (tasks db)\<rparr>))"


section \<open>Fires and reads (scheduler.ts)\<close>

text \<open>The text that a template string prints for an integer-valued number: its decimal
  digits up to \<open>2 ^ 53\<close>, where every integer is a double of its own; beyond, what the
  host prints.\<close>

definition digit_char :: "nat \<Rightarrow> char" where
  "digit_char n = ''0123456789'' ! n"

fun decimal :: "nat \<Rightarrow> string" where
  "decimal n =
     (if n div 10 = 0 then [digit_char n] else decimal (n div 10) @ [digit_char (n mod 10)])"

declare decimal.simps [simp del]

definition numberToString :: "Host \<Rightarrow> int \<Rightarrow> string" where
  "numberToString H i =
     (if \<bar>i\<bar> \<le> 2 ^ 53
      then (if 0 \<le> i then decimal (nat i) else CHR ''-'' # decimal (nat (- i)))
      else largeNumberText H i)"

text \<open>\<^verbatim>\<open>Math.round\<close>: the nearest integer, a half going up.\<close>

definition Math_round :: "rat \<Rightarrow> int" where
  "Math_round x = \<lfloor>x + 1 / 2\<rfloor>"

text \<open>The reply of the peer to \<^verbatim>\<open>sampling/createMessage\<close>: its \<^verbatim>\<open>content.text\<close> and its
  \<^verbatim>\<open>JSON.stringify\<close> rendering. A rejected request is a \<open>thrown\<close> value; the SDK rejects
  a request that timed out with code -32001.\<close>

record SamplingResponse =
  content_text :: "string option"
  stringified :: string

definition truthyStr :: "string option \<Rightarrow> bool" where
  "truthyStr v = (v \<noteq> None \<and> v \<noteq> Some [])"

definition String :: "thrown \<Rightarrow> string" where
  "String err = (if err_message err = [] then err_name err
                 else err_name err @ '': '' @ err_message err)"

definition actionMessage :: "Host \<Rightarrow> TaskRecord \<Rightarrow> thrown + SamplingResponse \<Rightarrow> thrown + string" where
  "actionMessage H task sampling =
     (if truthyStr (agent_prompt task) then
        (if mcpServer H then
           (case sampling of
              Inl err \<Rightarrow> Inl err
            | Inr response \<Rightarrow>
                Inr (''Sampling response: '' @
                     (if truthyStr (content_text response) then the (content_text response)
                      else stringified response)))
         else Inr ''Task configured with agent_prompt but MCP server is not ready to send sampling requests'')
      else if truthyStr (mcp_server task) \<and> truthyStr (mcp_tool task) then
        Inr (''Task configured (legacy): '' @ the (mcp_server task) @ ''.'' @ the (mcp_tool task))
      else
        Inr (''Task executed: '' @ (case name task of None \<Rightarrow> ''undefined'' | Some n \<Rightarrow> n)
             @ '' (no action configured)''))"

text \<open>The rest of the try block after the message is known. \<open>Inl (err, task)\<close> is a throw
  of \<^verbatim>\<open>computeNextRun\<close>, with the task as the block had changed it by then.\<close>

definition runTask_success ::
  "Host \<Rightarrow> TaskRecord \<Rightarrow> instant \<Rightarrow> instant \<Rightarrow> string \<Rightarrow> (thrown \<times> TaskRecord) + TaskRecord" where
  "runTask_success H task start t_end msg =
     (let task = task\<lparr>last_status := Some L_success, last_message := Some msg,
                      status := (if trigger_type task = date then S_completed else S_scheduled)\<rparr>;
          task = appendHistory task \<lparr>run_at = start, status_h = H_success, message_h = Some msg\<rparr>
      in if trigger_type task = date
         then Inr (task\<lparr>enabled := False, next_run := None, updated_at := Some t_end\<rparr>)
         else (case computeNextRun H task start of
                 Inl err \<Rightarrow> Inl (err, task)
               | Inr nextRun \<Rightarrow> Inr (task\<lparr>next_run := nextRun, updated_at := Some t_end\<rparr>)))"

definition errorMessageOf :: "Host \<Rightarrow> thrown \<Rightarrow> string" where
  "errorMessageOf H err =
     (let errorMessage = (if err_message err \<noteq> [] then err_message err else String err)
      in if err_code err = Some (- 32001)
         then ''Sampling request timed out after ''
              @ numberToString H (Math_round (num_div (samplingTimeoutMs H) 1000)) @ ''s''
         else errorMessage)"

text \<open>The catch block: \<open>t_catch\<close> is the clock read for \<^verbatim>\<open>computeNextRun\<close>, \<open>t_end\<close> the one
  for \<open>updated_at\<close>. A throw of \<^verbatim>\<open>computeNextRun\<close> here leaves the function, with the
  task as the three assignments before it left it.\<close>

definition runTask_failure ::
  "Host \<Rightarrow> TaskRecord \<Rightarrow> instant \<Rightarrow> instant \<Rightarrow> instant \<Rightarrow> thrown
     \<Rightarrow> (thrown \<times> TaskRecord) + TaskRecord" where
  "runTask_failure H task start t_catch t_end err =
     (let errorMessage = errorMessageOf H err;
          task = task\<lparr>last_status := Some L_error, last_message := Some errorMessage,
                      status := S_error\<rparr>
      in case computeNextRun H task t_catch of
           Inl err' \<Rightarrow> Inl (err', task)
         | Inr nextRun \<Rightarrow>
             (let task = task\<lparr>next_run := nextRun\<rparr>;
                  task = appendHistory task
                           \<lparr>run_at = start, status_h = H_error, message_h = Some errorMessage\<rparr>
              in Inr (task\<lparr>updated_at := Some t_end\<rparr>)))"

text \<open>The first five assignments of \<^verbatim>\<open>runTask\<close>.\<close>

definition markRunning :: "TaskRecord \<Rightarrow> instant \<Rightarrow> TaskRecord" where
  "markRunning task start =
     task\<lparr>status := S_running, last_run := Some start, last_status := Some L_running,
          last_message := None, updated_at := Some start\<rparr>"

record RunResult =
  success :: bool
  message :: string

text \<open>\<^verbatim>\<open>runTask\<close>: the store after the call, the task object as the call left it, and
  what the promise settles to (\<open>Inl\<close>: it rejects).\<close>

definition runTask ::
  "Host \<Rightarrow> Store \<Rightarrow> TaskRecord \<Rightarrow> instant \<Rightarrow> instant \<Rightarrow> instant \<Rightarrow> thrown + SamplingResponse
     \<Rightarrow> Store \<times> TaskRecord \<times> (thrown + RunResult)" where
  "runTask H db task start t_catch t_end sampling =
     (let task = markRunning task start;
          db = upsert db task;
          attempt = (case actionMessage H task sampling of
                       Inl err \<Rightarrow> Inl (err, task)
                     | Inr msg \<Rightarrow> (case runTask_success H task start t_end msg of
                           Inl thrownAt \<Rightarrow> Inl thrownAt
                         | Inr done \<Rightarrow> Inr (done, msg)))
      in case attempt of
           Inr (done, msg) \<Rightarrow> (upsert db done, done, Inr \<lparr>success = True, message = msg\<rparr>)
         | Inl (err, task) \<Rightarrow>
             (case runTask_failure H task start t_catch t_end err of
                Inl (err', task) \<Rightarrow> (db, task, Inl err')
              | Inr failed \<Rightarrow>
                  (upsert db failed, failed,
                   Inr \<lparr>success = False, message = errorMessageOf H err\<rparr>)))"

definition executeTask ::
  "Host \<Rightarrow> Store \<Rightarrow> string \<Rightarrow> instant \<Rightarrow> instant \<Rightarrow> instant \<Rightarrow> thrown + SamplingResponse
     \<Rightarrow> Store \<times> (thrown + RunResult)" where
  "executeTask H db i start t_catch t_end sampling =
     (case get db i of
        None \<Rightarrow> (db, Inr \<lparr>success = False, message = ''Task not found: '' @ i\<rparr>)
      | Some task \<Rightarrow>
          (case runTask H db task start t_catch t_end sampling of
             (db', task', outcome) \<Rightarrow> (db', outcome)))"


fun listTasks_loop ::
  "Host \<Rightarrow> (nat \<Rightarrow> instant \<times> instant) \<Rightarrow> nat \<Rightarrow> TaskRecord list \<Rightarrow> Store \<Rightarrow> TaskRecord list
     \<Rightarrow> Store \<times> (thrown + TaskRecord list)" where
  "listTasks_loop H clock k [] db normalised = (db, Inr normalised)"
| "listTasks_loop H clock k (task # rest) db normalised =
     (case normaliseTask H task (fst (clock k)) (snd (clock k)) of
        Inl err \<Rightarrow> (db, Inl err)
      | Inr updated \<Rightarrow> listTasks_loop H clock (Suc k) rest (upsert db updated) (normalised @ [updated]))"


text \<open>\<^verbatim>\<open>clearTaskHistory\<close>, the operation behind tool \<^verbatim>\<open>clear_task_history\<close>.\<close>

definition clearTaskHistory :: "Store \<Rightarrow> string \<Rightarrow> instant \<Rightarrow> Store \<times> (thrown + TaskRecord)" where
  "clearTaskHistory db i now =
     (case get db i of
        None \<Rightarrow> (db, Inl (Error (''Task not found: '' @ i)))
      | Some task \<Rightarrow>
          (let task = task\<lparr>history := Some [], last_message := None, last_status := None,
                           updated_at := Some now\<rparr>
           in (upsert db task, Inr task)))"


section \<open>Arming timers and creating a task (scheduler.ts)\<close>

text \<open>The scheduler owns the store and two timer registries, each the set of task ids
  with an armed timer. \<open>clock k\<close> is the \<open>k\<close>-th reading of the clock within a call.\<close>

record Scheduler =
  storage :: Store
  cronJobs :: "string set"
  intervalTimers :: "string set"

definition scheduleInterval ::
  "Scheduler \<Rightarrow> TaskRecord \<Rightarrow> instant \<Rightarrow> instant \<Rightarrow> Scheduler \<times> (thrown + TaskRecord)" where
  "scheduleInterval S task t1 t2 =
     (let intervalMs = computeIntervalMs (trigger_config task)
      in if intervalMs \<le> 0 then (S, Inr task)
         else (let normalizedInterval = max 1 (Math_round intervalMs);
                   S = S\<lparr>intervalTimers := insert (task_id task) (intervalTimers S)\<rparr>
               in case toISOString (newDate (num_add (of_int t1) (of_int normalizedInterval))) of
                    Inl err \<Rightarrow> (S, Inl err)
                  | Inr nextRun \<Rightarrow>
                      (let task = task\<lparr>next_run := Some nextRun, updated_at := Some t2\<rparr>
                       in (S\<lparr>storage := upsert (storage S) task\<rparr>, Inr task))))"

definition scheduleCron ::
  "Host \<Rightarrow> Scheduler \<Rightarrow> TaskRecord \<Rightarrow> instant \<Rightarrow> instant \<Rightarrow> Scheduler \<times> (thrown + TaskRecord)" where
  "scheduleCron H S task t1 t2 =
     (if \<not> (case expression (trigger_config task) of None \<Rightarrow> False | Some e \<Rightarrow> cronValidate H e)
      then (S, Inr task)
      else (let S = S\<lparr>cronJobs := insert (task_id task) (cronJobs S)\<rparr>
            in case computeNextRun H task t1 of
                 Inl err \<Rightarrow> (S, Inl err)
               | Inr None \<Rightarrow> (S, Inr task)
               | Inr (Some nextRun) \<Rightarrow>
                   (let task = task\<lparr>next_run := Some nextRun, updated_at := Some t2\<rparr>
                    in (S\<lparr>storage := upsert (storage S) task\<rparr>, Inr task))))"

definition scheduleDate ::
  "Scheduler \<Rightarrow> TaskRecord \<Rightarrow> instant \<Rightarrow> instant \<Rightarrow> Scheduler \<times> (thrown + TaskRecord)" where
  "scheduleDate S task t1 t2 =
     (let runDate = run_date (trigger_config task)
      in if (case runDate of None \<Rightarrow> False | Some d \<Rightarrow> d \<le> t1) then (S, Inr task)
         else (let S = S\<lparr>intervalTimers := insert (task_id task) (intervalTimers S)\<rparr>
               in case toISOString runDate of
                    Inl err \<Rightarrow> (S, Inl err)
                  | Inr stamp \<Rightarrow>
                      (let task = task\<lparr>next_run := Some stamp, updated_at := Some t2\<rparr>
                       in (S\<lparr>storage := upsert (storage S) task\<rparr>, Inr task))))"

definition scheduleTask ::
  "Host \<Rightarrow> Scheduler \<Rightarrow> TaskRecord \<Rightarrow> instant \<Rightarrow> instant \<Rightarrow> Scheduler \<times> (thrown + TaskRecord)" where
  "scheduleTask H S task t1 t2 =
     (case trigger_type task of
        interval \<Rightarrow> scheduleInterval S task t1 t2
      | cron \<Rightarrow> scheduleCron H S task t1 t2
      | date \<Rightarrow> scheduleDate S task t1 t2
      | other_trigger \<Rightarrow> (S, Inr task))"

record CreateParams =
  param_name :: string
  param_trigger_type :: TriggerType
  param_trigger_config :: TriggerConfig
  param_mcp_server :: "string option"
  param_mcp_tool :: "string option"
  param_mcp_arguments :: "json option"
  param_agent_prompt :: "string option"

text \<open>\<^verbatim>\<open>createTask\<close>; \<open>newId\<close> is what \<^verbatim>\<open>generateId\<close> returns.\<close>

definition createTask ::
  "Host \<Rightarrow> Scheduler \<Rightarrow> CreateParams \<Rightarrow> string \<Rightarrow> (nat \<Rightarrow> instant)
     \<Rightarrow> Scheduler \<times> (thrown + TaskRecord)" where
  "createTask H S params newId clock =
     (let now = clock 0;
          task = \<lparr>task_id = newId,
                  trigger_type = param_trigger_type params,
                  trigger_config = param_trigger_config params,
                  mcp_server = param_mcp_server params,
                  mcp_tool = param_mcp_tool params,
                  mcp_arguments = param_mcp_arguments params,
                  agent_prompt = param_agent_prompt params,
                  enabled = True,
                  status = S_scheduled,
                  created_at = now,
                  updated_at = Some now,
                  last_run = None,
                  last_status = None,
                  last_message = None,
                  next_run = None,
                  name = Some (param_name params),
                  history = Some []\<rparr>
      in case computeNextRun H task (clock 1) of
           Inl err \<Rightarrow> (S, Inl err)
         | Inr nextRun \<Rightarrow>
             (let task = task\<lparr>next_run := nextRun\<rparr>;
                  S = S\<lparr>storage := upsert (storage S) task\<rparr>
              in if enabled task then scheduleTask H S task (clock 2) (clock 3)
                 else (S, Inr task)))"

section \<open>Validation of tool arguments (index.ts)\<close>

text \<open>\<^verbatim>\<open>value.trim()\<close>. A character of the model is a code unit below 256 (text beyond
  Latin-1 is not modelled); among these, the white space and line terminators of
  JavaScript are tab, line feed, vertical tab, form feed, carriage return, space and
  the no-break space U+00A0.\<close>

definition isWhiteSpace :: "char \<Rightarrow> bool" where
  "isWhiteSpace c =
     (c \<in> {CHR 0x09, CHR 0x0A, CHR 0x0B, CHR 0x0C, CHR 0x0D, CHR 0x20, CHR 0xA0})"

definition trim :: "string \<Rightarrow> string" where
  "trim s = rev (dropWhile isWhiteSpace (rev (dropWhile isWhiteSpace s)))"

definition ensureNumber :: "Host \<Rightarrow> json \<Rightarrow> string \<Rightarrow> thrown + rat" where
  "ensureNumber H v field =
     (case v of
        JNum n \<Rightarrow> Inr n
      | JStr s \<Rightarrow>
          (if length (trim s) > 0
           then (case toNumber H s of
                   Some num \<Rightarrow> Inr num
                 | None \<Rightarrow> Inl (Error (''Invalid numeric value for '' @ field)))
           else Inl (Error (''Invalid numeric value for '' @ field)))
      | _ \<Rightarrow> Inl (Error (''Invalid numeric value for '' @ field)))"

definition allowedKeys :: "string list" where
  "allowedKeys = [''seconds'', ''minutes'', ''hours'', ''days'']"

text \<open>One of the four blocks of \<^verbatim>\<open>validateIntervalConfig\<close>: the field when the key is in
  the object, checked against 0.001.\<close>

definition intervalField ::
  "Host \<Rightarrow> (string \<times> json) list \<Rightarrow> string \<Rightarrow> string \<Rightarrow> thrown + rat option" where
  "intervalField H rawConfig key complaint =
     (case map_of rawConfig key of
        None \<Rightarrow> Inr None
      | Some v \<Rightarrow>
          (case ensureNumber H v (''trigger_config.'' @ key) of
             Inl err \<Rightarrow> Inl err
           | Inr n \<Rightarrow> if n < 1 / 1000 then Inl (Error complaint) else Inr (Some n)))"

definition validateIntervalConfig :: "Host \<Rightarrow> (string \<times> json) list \<Rightarrow> thrown + TriggerConfig" where
  "validateIntervalConfig H rawConfig =
     (case find (\<lambda>key. key \<notin> set allowedKeys) (map fst rawConfig) of
        Some key \<Rightarrow> Inl (Error (''Unknown interval option: '' @ key))
      | None \<Rightarrow>
     (case intervalField H rawConfig ''seconds'' ''Seconds must be greater than 0'' of
        Inl err \<Rightarrow> Inl err
      | Inr s \<Rightarrow>
     (case intervalField H rawConfig ''minutes'' ''Minutes must be greater than 0'' of
        Inl err \<Rightarrow> Inl err
      | Inr m \<Rightarrow>
     (case intervalField H rawConfig ''hours'' ''Hours must be greater than 0'' of
        Inl err \<Rightarrow> Inl err
      | Inr h \<Rightarrow>
     (case intervalField H rawConfig ''days'' ''Days must be greater than 0'' of
        Inl err \<Rightarrow> Inl err
      | Inr d \<Rightarrow>
          (let totalMs = 0;
               totalMs = (case s of None \<Rightarrow> totalMs
                          | Some n \<Rightarrow> num_add totalMs (num_mul n 1000));
               totalMs = (case m of None \<Rightarrow> totalMs
                          | Some n \<Rightarrow> num_add totalMs (num_mul (num_mul n 60) 1000));
               totalMs = (case h of None \<Rightarrow> totalMs
                          | Some n \<Rightarrow>
                              num_add totalMs (num_mul (num_mul (num_mul n 60) 60) 1000));
               totalMs = (case d of None \<Rightarrow> totalMs
                          | Some n \<Rightarrow>
                              num_add totalMs
                                (num_mul (num_mul (num_mul (num_mul n 24) 60) 60) 1000))
           in if totalMs \<le> 0
              then Inl (Error ''Interval trigger requires at least one positive duration field'')
              else Inr (emptyConfig\<lparr>seconds := s, minutes := m, hours := h, days := d\<rparr>)))))))"

definition validateCronConfig :: "Host \<Rightarrow> (string \<times> json) list \<Rightarrow> thrown + TriggerConfig" where
  "validateCronConfig H rawConfig =
     (case map_of rawConfig ''expression'' of
        Some (JStr e) \<Rightarrow>
          (if length (trim e) = 0 then Inl (Error ''Cron trigger requires a non-empty expression'')
           else if \<not> cronValidate H e then Inl (Error (''Invalid cron expression: '' @ e))
           else Inr (emptyConfig\<lparr>expression := Some e\<rparr>))
      | _ \<Rightarrow> Inl (Error ''Cron trigger requires a non-empty expression''))"

definition delayFields :: "(string \<times> rat) list" where
  "delayFields = [(''delay_seconds'', 1000), (''delay_minutes'', 60 * 1000),
     (''delay_hours'', 60 * 60 * 1000), (''delay_days'', 24 * 60 * 60 * 1000)]"

text \<open>The loop over \<^verbatim>\<open>delayFields\<close>, with \<open>delayMs\<close> as accumulator.\<close>

fun sumDelays :: "Host \<Rightarrow> (string \<times> json) list \<Rightarrow> (string \<times> rat) list \<Rightarrow> rat \<Rightarrow> thrown + rat" where
  "sumDelays H config [] delayMs = Inr delayMs"
| "sumDelays H config ((field, multiplier) # rest) delayMs =
     (case map_of config field of
        None \<Rightarrow> sumDelays H config rest delayMs
      | Some v \<Rightarrow>
          (case ensureNumber H v (''trigger_config.'' @ field) of
             Inl err \<Rightarrow> Inl err
           | Inr val \<Rightarrow>
               if val < 0 then Inl (Error (field @ '' must be >= 0''))
               else sumDelays H config rest (num_add delayMs (num_mul val multiplier))))"

text \<open>The \<open>runDate\<close> variable of \<^verbatim>\<open>validateDateConfig\<close> is \<open>None\<close> while it is
  \<^verbatim>\<open>undefined\<close> and \<open>Some d\<close> once it holds a Date \<open>d\<close> (valid or not).\<close>

definition explicitRunDate :: "Host \<Rightarrow> (string \<times> json) list \<Rightarrow> thrown + jsdate option" where
  "explicitRunDate H config =
     (case map_of config ''run_date'' of
        Some (JStr s) \<Rightarrow>
          (if length (trim s) > 0
           then (case parseDate H s of
                   None \<Rightarrow> Inl (Error (''Invalid ISO date string for run_date: '' @ s))
                 | Some d \<Rightarrow> Inr (Some (Some d)))
           else Inr None)
      | _ \<Rightarrow> Inr None)"

definition notAfter :: "jsdate \<Rightarrow> instant \<Rightarrow> bool" where
  "notAfter d now = (case d of None \<Rightarrow> False | Some t \<Rightarrow> t \<le> now)"

definition validateDateConfig ::
  "Host \<Rightarrow> instant \<Rightarrow> (string \<times> json) list \<Rightarrow> thrown + TriggerConfig" where
  "validateDateConfig H now rawConfig =
     (case sumDelays H rawConfig delayFields 0 of
        Inl err \<Rightarrow> Inl err
      | Inr delayMs \<Rightarrow>
     (case explicitRunDate H rawConfig of
        Inl err \<Rightarrow> Inl err
      | Inr runDate \<Rightarrow>
          (let runDate = (if runDate = None \<and> delayMs > 0
                          then Some (newDate (num_add (of_int now) delayMs)) else runDate)
           in case runDate of
                None \<Rightarrow> Inl (Error ''Date trigger requires either run_date or delay fields (delay_seconds/minutes/hours/days)'')
              | Some d \<Rightarrow>
                  (let d = (if notAfter d now
                            then (if delayMs > 0 then newDate (num_add (of_int now) delayMs)
                                  else newDate (num_add (of_int now) 1000))
                            else d)
                   in case toISOString d of
                        Inl err \<Rightarrow> Inl err
                      | Inr stamp \<Rightarrow> Inr (emptyConfig\<lparr>run_date := Some stamp\<rparr>)))))"

text \<open>\<^verbatim>\<open>validateTriggerConfig\<close>: an absent argument is \<open>None\<close>. An array passes the
  \<^verbatim>\<open>typeof\<close> test; its properties are its indices.\<close>

definition propertiesOf :: "json \<Rightarrow> (string \<times> json) list option" where
  "propertiesOf v = (case v of
       JObj kvs \<Rightarrow> Some kvs
     | JArr xs \<Rightarrow> Some (zip (map decimal [0..<length xs]) xs)
     | _ \<Rightarrow> None)"

definition validateTriggerConfig ::
  "Host \<Rightarrow> instant \<Rightarrow> TriggerType \<Rightarrow> json option \<Rightarrow> thrown + TriggerConfig" where
  "validateTriggerConfig H now triggerType rawConfig =
     (case (case rawConfig of None \<Rightarrow> None | Some v \<Rightarrow> propertiesOf v) of
        None \<Rightarrow> Inl (Error ''trigger_config must be an object'')
      | Some props \<Rightarrow>
          (case triggerType of
             interval \<Rightarrow> validateIntervalConfig H props
           | cron \<Rightarrow> validateCronConfig H props
           | date \<Rightarrow> validateDateConfig H now props
           | other_trigger \<Rightarrow> Inl (Error ''Unsupported trigger_type'')))"

definition sanitizeAgentPrompt :: "json option \<Rightarrow> thrown + string option" where
  "sanitizeAgentPrompt v =
     (case v of
        None \<Rightarrow> Inr None
      | Some JNull \<Rightarrow> Inr None
      | Some (JStr s) \<Rightarrow>
          (if length (trim s) = 0
           then Inl (Error ''agent_prompt must be a non-empty string when provided'')
           else Inr (Some (trim s)))
      | Some _ \<Rightarrow> Inl (Error ''agent_prompt must be a non-empty string when provided''))"

definition extractAgentPrompt :: "(string \<times> json) list \<Rightarrow> thrown + string option" where
  "extractAgentPrompt args =
     (case sanitizeAgentPrompt (map_of args ''agent_prompt'') of
        Inl err \<Rightarrow> Inl err
      | Inr prompt \<Rightarrow>
          if truthyStr prompt then Inr prompt
          else sanitizeAgentPrompt
                 (case map_of args ''mcp_arguments'' of
                    Some (JObj kvs) \<Rightarrow> map_of kvs ''agent_prompt''
                  | _ \<Rightarrow> None))"

definition triggerTypeOf :: "json option \<Rightarrow> TriggerType option" where
  "triggerTypeOf v =
     (if v = Some (JStr ''interval'') then Some interval
      else if v = Some (JStr ''cron'') then Some cron
      else if v = Some (JStr ''date'') then Some date
      else None)"

definition stringArg :: "json option \<Rightarrow> string option" where
  "stringArg v = (case v of Some (JStr s) \<Rightarrow> Some s | _ \<Rightarrow> None)"

text \<open>The \<^verbatim>\<open>create_task\<close> case of the tool-call handler, up to the task it describes in
  its reply; a throw is caught by the handler and answered with an error result.
  \<open>mcp_server\<close> and \<open>mcp_tool\<close> are taken when they are strings.\<close>

definition create_task ::
  "Host \<Rightarrow> Scheduler \<Rightarrow> (string \<times> json) list \<Rightarrow> instant \<Rightarrow> string \<Rightarrow> (nat \<Rightarrow> instant)
     \<Rightarrow> Scheduler \<times> (thrown + TaskRecord)" where
  "create_task H S args now newId clock =
     (case stringArg (map_of args ''name'') of
        None \<Rightarrow> (S, Inl (Error ''Task name is required''))
      | Some nm \<Rightarrow>
     (if length (trim nm) = 0 then (S, Inl (Error ''Task name is required''))
      else
     (case triggerTypeOf (map_of args ''trigger_type'') of
        None \<Rightarrow> (S, Inl (Error ''trigger_type must be one of interval, cron, date''))
      | Some triggerType \<Rightarrow>
     (case validateTriggerConfig H now triggerType (map_of args ''trigger_config'') of
        Inl err \<Rightarrow> (S, Inl err)
      | Inr triggerConfig \<Rightarrow>
     (case extractAgentPrompt args of
        Inl err \<Rightarrow> (S, Inl err)
      | Inr agentPrompt \<Rightarrow>
          createTask H S
            \<lparr>param_name = trim nm,
             param_trigger_type = triggerType,
             param_trigger_config = triggerConfig,
             param_mcp_server = stringArg (map_of args ''mcp_server''),
             param_mcp_tool = stringArg (map_of args ''mcp_tool''),
             param_mcp_arguments = map_of args ''mcp_arguments'',
             param_agent_prompt = agentPrompt\<rparr>
            newId clock)))))"


section \<open>The specification's wording\<close>

text \<open>The interval duration as the specification words it: the sum of the given
  seconds, minutes, hours and days, in milliseconds (an exact sum, nothing rounded).\<close>

definition amount :: "rat option \<Rightarrow> rat" where
  "amount v = (case v of None \<Rightarrow> 0 | Some n \<Rightarrow> n)"

definition intervalDelta :: "TriggerConfig \<Rightarrow> rat" where
  "intervalDelta config =
     amount (seconds config) * 1000 + amount (minutes config) * 60000
     + amount (hours config) * 3600000 + amount (days config) * 86400000"

text \<open>A configuration given in whole units: every field that is present is a Number
  that is a whole number of the next smaller unit (seconds in milliseconds, minutes in
  seconds, hours in minutes, days in hours) and amounts to at most \<open>2 ^ 51\<close> milliseconds
  (some 71 thousand years). Its duration is a whole number of milliseconds.\<close>

definition wholeNumber :: "rat \<Rightarrow> bool" where
  "wholeNumber x = (of_int \<lfloor>x\<rfloor> = x)"

definition wholeField :: "rat option \<Rightarrow> rat \<Rightarrow> rat \<Rightarrow> bool" where
  "wholeField v smaller unit =
     (case v of
        None \<Rightarrow> True
      | Some x \<Rightarrow> isDouble x \<and> wholeNumber (x * smaller) \<and> \<bar>x\<bar> * unit \<le> 2 ^ 51)"

definition wholeConfig :: "TriggerConfig \<Rightarrow> bool" where
  "wholeConfig config =
     (wholeField (seconds config) 1000 1000 \<and> wholeField (minutes config) 60 60000
      \<and> wholeField (hours config) 60 3600000 \<and> wholeField (days config) 24 86400000)"

text \<open>The trigger evaluator of the specification,
  \<^verbatim>\<open>next_fire(trigger, reference_instant, zone, previously_planned)\<close>; the zone is the one
  of the host's cron library. Interval: a planned instant strictly after the reference is
  returned unchanged, otherwise the reference plus the duration, rounded to whole
  milliseconds and at least 1 ms. Cron: a planned instant in the future is kept,
  otherwise the earliest fire after the reference. Date: none when the run date is not
  after the reference, otherwise the run date.\<close>

definition inFuture :: "instant option \<Rightarrow> instant \<Rightarrow> bool" where
  "inFuture planned reference = (case planned of None \<Rightarrow> False | Some p \<Rightarrow> reference < p)"

definition next_fire ::
  "Host \<Rightarrow> TriggerType \<Rightarrow> TriggerConfig \<Rightarrow> instant \<Rightarrow> instant option \<Rightarrow> instant option" where
  "next_fire H kind config reference previously_planned =
     (case kind of
        interval \<Rightarrow>
          if inFuture previously_planned reference then previously_planned
          else Some (reference + max 1 \<lfloor>intervalDelta config + 1 / 2\<rfloor>)
      | cron \<Rightarrow>
          if inFuture previously_planned reference then previously_planned
          else (case expression config of None \<Rightarrow> None | Some e \<Rightarrow> cronNext H e reference)
      | date \<Rightarrow>
          (case run_date config of
             None \<Rightarrow> None
           | Some d \<Rightarrow> if d \<le> reference then None else Some d)
      | other_trigger \<Rightarrow> None)"

text \<open>The triggers on which the evaluator of the specification is defined: an interval
  given in whole units with a positive duration that leads to an instant within the
  range of a Date, a date trigger with a readable run date, and any cron trigger.\<close>

definition evaluable :: "TriggerType \<Rightarrow> TriggerConfig \<Rightarrow> instant \<Rightarrow> bool" where
  "evaluable kind config reference =
     (case kind of
        interval \<Rightarrow> wholeConfig config \<and> 0 < intervalDelta config
                    \<and> \<bar>of_int reference + intervalDelta config\<bar> \<le> 8640000000000000
      | date \<Rightarrow> run_date config \<noteq> None
      | _ \<Rightarrow> True)"

text \<open>The status rules of the specification's normalisation, in their order: not enabled
  gives completed if previously completed, else paused; running stays running; a date
  trigger whose most recent history entry is a success, or whose run date is not after
  now, gives completed; a last status of error gives error; otherwise scheduled.\<close>

definition ruleStatus :: "TaskRecord \<Rightarrow> instant \<Rightarrow> TaskStatus" where
  "ruleStatus task now =
     (if \<not> enabled task then (if status task = S_completed then S_completed else S_paused)
      else if status task = S_running then S_running
      else if trigger_type task = date
              \<and> ((case history task of Some (e # es) \<Rightarrow> status_h e = H_success | _ \<Rightarrow> False)
                 \<or> (case run_date (trigger_config task) of None \<Rightarrow> False | Some d \<Rightarrow> d \<le> now))
      then S_completed
      else if last_status task = Some L_error then S_error
      else S_scheduled)"

text \<open>What a read stores, in the specification's words with the status rule as the
  program applies it: the history cut to ten entries; the status by the rules, but
  scheduled for a date task that they would mark error; a date task that is completed
  disabled; the next run by the evaluator when the task is then enabled, and as stored
  otherwise; \<open>updated_at\<close> stamped only when it is missing. A task is readable when the
  evaluator covers its trigger in case it is needed.\<close>

definition storedStatus :: "TaskRecord \<Rightarrow> instant \<Rightarrow> TaskStatus" where
  "storedStatus task now =
     (if trigger_type task = date \<and> ruleStatus task now = S_error then S_scheduled
      else ruleStatus task now)"

definition staysEnabled :: "TaskRecord \<Rightarrow> instant \<Rightarrow> bool" where
  "staysEnabled task now =
     (enabled task \<and> \<not> (trigger_type task = date \<and> storedStatus task now = S_completed))"

definition normalised :: "Host \<Rightarrow> TaskRecord \<Rightarrow> instant \<Rightarrow> instant \<Rightarrow> TaskRecord" where
  "normalised H task now now2 =
     task\<lparr>history := map_option (take 10) (history task),
          status := storedStatus task now,
          enabled := staysEnabled task now,
          next_run := (if staysEnabled task now
                       then next_fire H (trigger_type task) (trigger_config task) now (next_run task)
                       else next_run task),
          updated_at := (case updated_at task of None \<Rightarrow> Some now2 | Some t \<Rightarrow> Some t)\<rparr>"


text \<open>A text that writes a natural number in decimal: digits only, no leading zero,
  with that value.\<close>

definition isDigit :: "char \<Rightarrow> bool" where
  "isDigit c = (48 \<le> (of_char c :: nat) \<and> (of_char c :: nat) \<le> 57)"

definition decimalValue :: "string \<Rightarrow> nat" where
  "decimalValue text = foldl (\<lambda>acc c. 10 * acc + (of_char c - 48)) 0 text"

definition writtenInDecimal :: "string \<Rightarrow> nat \<Rightarrow> bool" where
  "writtenInDecimal text n =
     (text \<noteq> [] \<and> list_all isDigit text \<and> (hd text = CHR ''0'' \<longrightarrow> text = ''0'')
      \<and> decimalValue text = n)"

text \<open>The duration of a raw configuration as the specification sums it: each of the
  four fields that is given and numeric, times its unit in milliseconds.\<close>

definition fieldMs :: "Host \<Rightarrow> (string \<times> json) list \<Rightarrow> string \<Rightarrow> rat \<Rightarrow> rat" where
  "fieldMs H rawConfig key multiplier =
     (case map_of rawConfig key of
        None \<Rightarrow> 0
      | Some v \<Rightarrow> (case ensureNumber H v (''trigger_config.'' @ key) of
                     Inl err \<Rightarrow> 0
                   | Inr n \<Rightarrow> n * multiplier))"

definition rawTotalMs :: "Host \<Rightarrow> (string \<times> json) list \<Rightarrow> rat" where
  "rawTotalMs H rawConfig =
     fieldMs H rawConfig ''seconds'' 1000 + fieldMs H rawConfig ''minutes'' 60000
     + fieldMs H rawConfig ''hours'' 3600000 + fieldMs H rawConfig ''days'' 86400000"






text \<open>The row that \<^verbatim>\<open>updateStatus\<close> is specified to leave: the fields present in the
  patch written, \<open>updated_at\<close> stamped, every other column as it was.\<close>

definition patchedRow :: "StatusPatch \<Rightarrow> instant \<Rightarrow> TaskRow \<Rightarrow> TaskRow" where
  "patchedRow patch now r =
     r\<lparr>last_run := (case patch_last_run patch of None \<Rightarrow> last_run r | Some v \<Rightarrow> v),
       last_status := (case patch_last_status patch of None \<Rightarrow> last_status r | Some v \<Rightarrow> v),
       last_message := (case patch_last_message patch of None \<Rightarrow> last_message r | Some v \<Rightarrow> v),
       next_run := (case patch_next_run patch of None \<Rightarrow> next_run r | Some v \<Rightarrow> v),
       updated_at := Some now\<rparr>"

text \<open>What a reader of table \<^verbatim>\<open>task_history\<close> sees of a row (every column but the
  key), and the history of one task as \<^verbatim>\<open>get\<close> and \<^verbatim>\<open>list\<close> attach it.\<close>

definition visible :: "HistoryRow \<Rightarrow> string \<times> TaskHistoryEntry" where
  "visible h = (hist_task_id h, entryOfRow h)"

definition historyOf :: "Store \<Rightarrow> string \<Rightarrow> TaskHistoryEntry list" where
  "historyOf db i =
     map entryOfRow (sort_key (\<lambda>h. - hist_run_at h)
       (filter (\<lambda>h. hist_task_id h = i) (task_history db)))"


section \<open>Sample inputs\<close>

text \<open>A host with a sampling timeout of 50 ms in its environment, a cron library that
  knows the every-minute expression, and parsers that know one date and two numbers
  (no sample reaches a number beyond \<open>2 ^ 53\<close>); the same host with no timeout in its
  environment.\<close>

definition host0 :: Host where
  "host0 =
     \<lparr>cronNext = (\<lambda>e t. if e = ''* * * * *'' then Some ((t div 60000 + 1) * 60000) else None),
      cronValidate = (\<lambda>e. e = ''* * * * *''),
      toNumber = (\<lambda>s. if s = ''5'' then Some 5 else if s = ''50'' then Some 50 else None),
      parseDate = (\<lambda>s. if s = ''2000-01-01T00:00:00Z'' then Some 946684800000 else None),
      largeNumberText = (\<lambda>i. ''1e+21''),
      timeoutEnv = Some ''50'',
      mcpServer = True\<rparr>"

definition host1 :: Host where
  "host1 = host0\<lparr>timeoutEnv := None\<rparr>"

text \<open>An enabled interval task whose configuration is the empty object, as the legacy
  import and \<^verbatim>\<open>safeParse\<close> produce it when a record carries none.\<close>

definition legacyTask :: TaskRecord where
  "legacyTask =
     \<lparr>task_id = ''task-1'', trigger_type = interval, trigger_config = emptyConfig,
      mcp_server = None, mcp_tool = None, mcp_arguments = None, agent_prompt = None,
      enabled = True, status = S_scheduled, created_at = 1000, updated_at = Some 1000,
      last_run = None, last_status = None, last_message = None, next_run = None,
      name = None, history = Some []\<rparr>"

text \<open>An interval task of 30 seconds whose next tick is planned at 9000, the same task
  with an interval of one day, one hour and two minutes and with one of half a second,
  and the first with an agent prompt.\<close>

definition tickTask :: TaskRecord where
  "tickTask = legacyTask\<lparr>trigger_config := emptyConfig\<lparr>seconds := Some 30\<rparr>,
     next_run := Some 9000\<rparr>"



definition promptTask :: TaskRecord where
  "promptTask = tickTask\<lparr>agent_prompt := Some ''ping''\<rparr>"

text \<open>The rejection by which the SDK reports a request that timed out.\<close>

definition timeoutError :: thrown where
  "timeoutError = Thrown ''McpError'' ''MCP error -32001: Request timed out'' (Some (- 32001))"

text \<open>Two history entries and a task that carries them, newest first.\<close>

definition entryA :: TaskHistoryEntry where
  "entryA = \<lparr>run_at = 2000, status_h = H_success, message_h = Some ''first''\<rparr>"

definition entryB :: TaskHistoryEntry where
  "entryB = \<lparr>run_at = 4000, status_h = H_error, message_h = Some ''second''\<rparr>"

definition firedTask :: TaskRecord where
  "firedTask = tickTask\<lparr>history := Some [entryB, entryA], last_run := Some 4000,
     last_status := Some L_error, last_message := Some ''second''\<rparr>"

text \<open>A task whose history is full.\<close>

definition oldEntry :: "int \<Rightarrow> TaskHistoryEntry" where
  "oldEntry k = \<lparr>run_at = 100 * k, status_h = H_success, message_h = None\<rparr>"

definition fullTask :: TaskRecord where
  "fullTask = tickTask\<lparr>history := Some [oldEntry 10, oldEntry 9, oldEntry 8, oldEntry 7,
     oldEntry 6, oldEntry 5, oldEntry 4, oldEntry 3, oldEntry 2, oldEntry 1]\<rparr>"

text \<open>The message of a fire with no action configured, for a task read from the store
  (which keeps no name), and the history entry of such a fire at 5000.\<close>

definition noAction :: string where
  "noAction = ''Task executed: undefined (no action configured)''"

definition newEntry :: TaskHistoryEntry where
  "newEntry = \<lparr>run_at = 5000, status_h = H_success, message_h = Some noAction\<rparr>"

text \<open>A one-shot task due at 8000; the same task disabled and paused with a successful
  run on record, as it stands after an interval task that ran was paused and then
  changed to a date trigger.\<close>

definition dateTask :: TaskRecord where
  "dateTask = legacyTask\<lparr>task_id := ''task-2'', trigger_type := date,
     trigger_config := emptyConfig\<lparr>run_date := Some 8000\<rparr>, next_run := Some 8000\<rparr>"

definition pausedDateTask :: TaskRecord where
  "pausedDateTask = dateTask\<lparr>enabled := False, status := S_paused, history := Some [entryA]\<rparr>"

text \<open>The patch without fields.\<close>

definition emptyPatch :: StatusPatch where
  "emptyPatch = \<lparr>patch_last_run = None, patch_last_status = None, patch_last_message = None,
     patch_next_run = None\<rparr>"

text \<open>A store holding the row of \<open>tickTask\<close> and nothing else; the store after
  \<open>firedTask\<close> was written to an empty one (its \<open>last_run\<close> is 4000, with two history
  rows), and the store after \<open>dateTask\<close> was; that store with \<open>tickTask\<close> added; the date
  task after a fire at 4000 that failed, before it is due, and the store that holds it;
  a scheduler over the first store.\<close>

definition storeA :: Store where
  "storeA = \<lparr>tasks = [rowOfTask tickTask], task_history = [], history_seq = 0\<rparr>"

definition storeF :: Store where
  "storeF = upsert emptyStore firedTask"





definition sched0 :: Scheduler where
  "sched0 = \<lparr>storage = storeA, cronJobs = {}, intervalTimers = {''task-1''}\<rparr>"




text \<open>Arguments of \<^verbatim>\<open>create_task\<close>: with an unknown key, with a zero duration, and
  valid ones.\<close>

definition badArgs :: "(string \<times> json) list" where
  "badArgs = [(''name'', JStr ''beat''), (''trigger_type'', JStr ''interval''),
     (''trigger_config'', JObj [(''seconds'', JNum 5), (''weeks'', JNum 1)])]"

definition zeroArgs :: "(string \<times> json) list" where
  "zeroArgs = [(''name'', JStr ''beat''), (''trigger_type'', JStr ''interval''),
     (''trigger_config'', JObj [(''seconds'', JNum 0)])]"

definition goodConfig :: "(string \<times> json) list" where
  "goodConfig = [(''seconds'', JNum 5), (''minutes'', JStr ''5'')]"

definition goodArgs :: "(string \<times> json) list" where
  "goodArgs = [(''name'', JStr ''beat''), (''trigger_type'', JStr ''interval''),
     (''trigger_config'', JObj goodConfig)]"

section \<open>Auxiliary facts\<close>

subsection \<open>Rounding to a double\<close>

lemma bitLength_bounds: "0 < n \<Longrightarrow> 2 ^ nat (bitLength n - 1) \<le> n \<and> n < 2 ^ nat (bitLength n)"
proof (induction n rule: bitLength.induct)
  case (1 n)
  show ?case
  proof (cases "n div 2 \<le> 0")
    case True
    with "1.prems" have "n = 1" by presburger
    then show ?thesis by (simp add: bitLength.simps [of 1] bitLength.simps [of 0])
  next
    case False
    then have h: "0 < n div 2" by simp
    from "1.IH" [OF _ h] "1.prems"
    have ih: "2 ^ nat (bitLength (n div 2) - 1) \<le> n div 2" "n div 2 < 2 ^ nat (bitLength (n div 2))"
      by simp_all
    have b: "bitLength n = 1 + bitLength (n div 2)"
      using "1.prems" by (simp add: bitLength.simps [of n])
    have nn: "0 \<le> bitLength m" for m
      by (induction m rule: bitLength.induct) (simp add: bitLength.simps)
    have p: "0 < bitLength (n div 2)"
      using h nn [of "n div 2 div 2"] by (simp add: bitLength.simps [of "n div 2"])
    then obtain k where k: "nat (bitLength (n div 2)) = Suc k"
      by (cases "nat (bitLength (n div 2))") simp_all
    then have k': "nat (bitLength (n div 2) - 1) = k" "nat (1 + bitLength (n div 2)) = Suc (Suc k)"
      using p by simp_all
    have "2 * 2 ^ k \<le> n" using ih(1) k' by simp
    moreover have "n < 2 * (2 * 2 ^ k)" using ih(2) k by simp
    ultimately show ?thesis
      using p by (simp add: b k k' nat_add_distrib)
  qed
qed

lemma bitLength_pos: "0 < n \<Longrightarrow> 0 < bitLength n"
proof -
  have nn: "0 \<le> bitLength m" for m
    by (induction m rule: bitLength.induct) (simp add: bitLength.simps)
  show "0 < n \<Longrightarrow> 0 < bitLength n"
    using nn [of "n div 2"] by (simp add: bitLength.simps [of n])
qed

lemma binaryExponent_bounds:
  assumes "0 < x"
  shows "2 powi binaryExponent x \<le> x" and "x < 2 powi (binaryExponent x + 1)"
proof -
  show "2 powi binaryExponent x \<le> x"
  proof (cases "1 \<le> x")
    case True
    then have f: "0 < \<lfloor>x\<rfloor>" by simp
    from bitLength_bounds [OF f]
    have "of_int (2 ^ nat (bitLength \<lfloor>x\<rfloor> - 1)) \<le> x"
      by (simp only: le_floor_iff)
    then show ?thesis
      using True bitLength_pos [OF f] by (simp add: binaryExponent_def power_int_def)
  next
    case False
    with assms have x: "0 < x" "x < 1" by simp_all
    then have "1 < 1 / x" by simp
    then have c: "0 < \<lceil>1 / x\<rceil> - 1" by linarith
    from bitLength_bounds [OF c] have "\<lceil>1 / x\<rceil> \<le> 2 ^ nat (bitLength (\<lceil>1 / x\<rceil> - 1))"
      by simp
    then have "1 / x \<le> of_int (2 ^ nat (bitLength (\<lceil>1 / x\<rceil> - 1)))"
      by (simp only: ceiling_le_iff)
    then have "1 / 2 ^ nat (bitLength (\<lceil>1 / x\<rceil> - 1)) \<le> x"
      using x(1) by (simp add: field_simps)
    then show ?thesis
      using False bitLength_pos [OF c]
      by (simp add: binaryExponent_def power_int_def field_simps)
  qed
  show "x < 2 powi (binaryExponent x + 1)"
  proof (cases "1 \<le> x")
    case True
    then have f: "0 < \<lfloor>x\<rfloor>" by simp
    from bitLength_bounds [OF f]
    have "x < of_int (2 ^ nat (bitLength \<lfloor>x\<rfloor>))"
      by (simp only: floor_less_iff)
    then show ?thesis
      using True bitLength_pos [OF f] by (simp add: binaryExponent_def power_int_def)
  next
    case False
    with assms have x: "0 < x" "x < 1" by simp_all
    then have "1 < 1 / x" by simp
    then have c: "0 < \<lceil>1 / x\<rceil> - 1" by linarith
    let ?k = "bitLength (\<lceil>1 / x\<rceil> - 1)"
    from bitLength_bounds [OF c] have "2 ^ nat (?k - 1) < \<lceil>1 / x\<rceil>"
      by simp
    then have "of_int (2 ^ nat (?k - 1)) < 1 / x"
      by (simp only: less_ceiling_iff)
    then have "x < 1 / 2 ^ nat (?k - 1)"
      using x(1) by (simp add: field_simps)
    moreover have "- ?k + 1 \<le> 0" using bitLength_pos [OF c] by simp
    moreover have "nat (- (- ?k + 1)) = nat (?k - 1)" by simp
    ultimately show ?thesis
      using False
      by (simp add: binaryExponent_def power_int_def field_simps)
  qed
qed

lemma roundHalfEven_near: "\<bar>of_int (roundHalfEven z) - z\<bar> \<le> 1 / 2"
  unfolding roundHalfEven_def Let_def by (auto simp add: abs_if) linarith+

lemma roundHalfEven_of_int [simp]: "roundHalfEven (of_int k) = k"
  by (simp add: roundHalfEven_def)

lemma roundHalfEven_nonneg: "0 \<le> z \<Longrightarrow> 0 \<le> roundHalfEven z"
  unfolding roundHalfEven_def Let_def by auto


lemma toDouble_nonneg: "0 \<le> x \<Longrightarrow> 0 \<le> toDouble x"
  by (simp add: toDouble_def Let_def roundHalfEven_nonneg)

lemma normal_exponent:
  assumes "2 powi (- 1022) \<le> \<bar>x\<bar>"
  shows "max (binaryExponent \<bar>x\<bar>) (- 1022) = binaryExponent \<bar>x\<bar>"
proof -
  have p: "0 < \<bar>x\<bar>"
    using assms zero_less_power_int [of "2::rat" "- 1022"] by linarith
  have "(2::rat) powi (- 1022) < 2 powi (binaryExponent \<bar>x\<bar> + 1)"
    using assms binaryExponent_bounds(2) [OF p] by linarith
  then have "- 1022 < binaryExponent \<bar>x\<bar> + 1"
    using power_int_increasing [of "binaryExponent \<bar>x\<bar> + 1" "- 1022" "2::rat"] by fastforce
  then show ?thesis by simp
qed

lemma toDouble_error:
  assumes "2 powi (- 1022) \<le> \<bar>x\<bar>"
  shows "\<bar>toDouble x - x\<bar> \<le> \<bar>x\<bar> / 2 ^ 53"
proof -
  let ?e = "binaryExponent \<bar>x\<bar>"
  let ?ulp = "(2::rat) powi (?e - 52)"
  have p: "0 < \<bar>x\<bar>"
    using assms zero_less_power_int [of "2::rat" "- 1022"] by linarith
  then have nz: "x \<noteq> 0" by simp
  have u: "0 < ?ulp" by simp
  have d: "toDouble x = of_int (roundHalfEven (x / ?ulp)) * ?ulp"
    using nz by (simp add: toDouble_def Let_def normal_exponent [OF assms])
  have "toDouble x - x = (of_int (roundHalfEven (x / ?ulp)) - x / ?ulp) * ?ulp"
    using u by (simp add: d field_simps)
  then have "\<bar>toDouble x - x\<bar> = \<bar>of_int (roundHalfEven (x / ?ulp)) - x / ?ulp\<bar> * ?ulp"
    using u by (simp add: abs_mult)
  also have "\<dots> \<le> 1 / 2 * ?ulp"
    using roundHalfEven_near [of "x / ?ulp"] u by (intro mult_right_mono) simp_all
  also have "\<dots> = 2 powi ?e / 2 ^ 53"
    by (simp add: power_int_diff)
  also have "\<dots> \<le> \<bar>x\<bar> / 2 ^ 53"
    using binaryExponent_bounds(1) [OF p] by (simp add: divide_right_mono)
  finally show ?thesis .
qed

lemma toDouble_of_int:
  assumes "\<bar>k\<bar> \<le> 2 ^ 53"
  shows "toDouble (of_int k) = of_int k"
proof (cases "k = 0")
  case True
  then show ?thesis by (simp add: toDouble_def)
next
  case False
  let ?x = "of_int k :: rat"
  let ?e = "binaryExponent \<bar>?x\<bar>"
  have one: "1 \<le> \<bar>?x\<bar>"
    using False by (simp flip: of_int_abs)
  then have p: "0 < \<bar>?x\<bar>" by linarith
  have "(2::rat) powi (- 1022) \<le> 1"
    by (simp add: power_int_minus_divide)
  with one have n: "2 powi (- 1022) \<le> \<bar>?x\<bar>" by linarith
  have lo: "0 \<le> ?e"
  proof -
    have "(2::rat) powi 0 < 2 powi (?e + 1)"
      using one binaryExponent_bounds(2) [OF p] by simp
    then have "0 < ?e + 1"
      using power_int_increasing [of "?e + 1" 0 "2::rat"] by fastforce
    then show ?thesis by simp
  qed
  have "\<bar>?x\<bar> \<le> 2 ^ 53"
    using assms by (simp flip: of_int_abs)
  then have hi: "(2::rat) powi ?e \<le> 2 powi 53"
    using binaryExponent_bounds(1) [OF p] by simp
  have e53: "?e \<le> 53"
    using power_int_le_imp_le_exp [OF _ hi] by simp
  have d: "toDouble ?x = of_int (roundHalfEven (?x / 2 powi (?e - 52))) * 2 powi (?e - 52)"
    using False by (simp add: toDouble_def Let_def normal_exponent [OF n])
  show ?thesis
  proof (cases "?e \<le> 52")
    case True
    then have "(2::rat) powi (?e - 52) = 1 / 2 ^ nat (52 - ?e)"
      using power_int_minus_divide [of "2::rat" "52 - ?e"] by (simp add: power_int_def)
    then have q: "?x / 2 powi (?e - 52) = of_int (k * 2 ^ nat (52 - ?e))"
      by simp
    have "toDouble ?x = of_int (k * 2 ^ nat (52 - ?e)) * 2 powi (?e - 52)"
      unfolding d q roundHalfEven_of_int ..
    also have "\<dots> = ?x"
      using q by (simp add: field_simps)
    finally show ?thesis .
  next
    case False
    with e53 have e: "?e = 53" by simp
    have "(2::rat) ^ 53 \<le> \<bar>?x\<bar>"
      using binaryExponent_bounds(1) [OF p] by (simp add: e)
    with \<open>\<bar>?x\<bar> \<le> 2 ^ 53\<close> have "\<bar>?x\<bar> = 2 ^ 53" by simp
    then have "\<bar>k\<bar> = 2 ^ 53"
      by (simp flip: of_int_abs)
    then consider "k = 2 ^ 53" | "k = - (2 ^ 53)" by (auto simp add: abs_if split: if_splits)
    then show ?thesis
    proof cases
      case 1
      have "toDouble (of_int (2 ^ 53)) = of_int (2 ^ 53)" by code_simp
      then show ?thesis by (simp only: 1)
    next
      case 2
      have "toDouble (of_int (- (2 ^ 53))) = of_int (- (2 ^ 53))" by code_simp
      then show ?thesis by (simp only: 2)
    qed
  qed
qed


subsection \<open>Instants and durations\<close>

lemma floor_rat_numeral [simp]:
  "\<lfloor>numeral a / numeral b :: rat\<rfloor> = numeral a div numeral b"
  using floor_divide_of_int_eq [of "numeral a" "numeral b", where ?'a = rat] by simp

lemma truncate_ms_of_int [simp]: "truncate_ms (of_int k) = k"
  by (simp add: truncate_ms_def)

lemma truncate_ms_add_int [simp]: "truncate_ms (of_int a + of_int b) = a + b"
  using truncate_ms_of_int [of "a + b"] by simp

lemma wholeNumber_closed [simp]:
  "wholeNumber (of_int k)" "wholeNumber (numeral n)" "wholeNumber 0"
  "wholeNumber x \<Longrightarrow> wholeNumber y \<Longrightarrow> wholeNumber (x * y)"
  "wholeNumber x \<Longrightarrow> wholeNumber y \<Longrightarrow> wholeNumber (x + y)"
proof -
  show "wholeNumber (of_int k)" "wholeNumber (numeral n)" "wholeNumber 0"
    by (simp_all add: wholeNumber_def)
  assume "wholeNumber x" and "wholeNumber y"
  then obtain a b where "x = of_int a" "y = of_int b"
    by (auto simp add: wholeNumber_def)
  then have "x * y = of_int (a * b)" "x + y = of_int (a + b)"
    by simp_all
  then show "wholeNumber (x * y)" "wholeNumber (x + y)"
    unfolding wholeNumber_def by (simp_all only: floor_of_int)
qed

lemma toDouble_whole:
  assumes "wholeNumber x" and "\<bar>x\<bar> \<le> 2 ^ 53"
  shows "toDouble x = x"
proof -
  from assms(1) obtain k where k: "x = of_int k"
    by (auto simp add: wholeNumber_def)
  with assms(2) have "of_int \<bar>k\<bar> \<le> (of_int (2 ^ 53) :: rat)"
    by simp
  then have "\<bar>k\<bar> \<le> 2 ^ 53"
    by (simp only: of_int_le_iff)
  then show ?thesis
    using toDouble_of_int [of k] by (simp add: k)
qed

lemma isDouble_whole: "wholeNumber x \<Longrightarrow> \<bar>x\<bar> \<le> 2 ^ 53 \<Longrightarrow> isDouble x"
  unfolding isDouble_def by (rule toDouble_whole)

lemma isDouble_numeral [simp]:
  "isDouble 0" "isDouble 1" "numeral b \<le> (2 ^ 53 :: rat) \<Longrightarrow> isDouble (numeral b)"
proof -
  show "isDouble 0"
    by (simp add: isDouble_def toDouble_def)
  show "isDouble 1"
    using isDouble_whole [of 1] by (simp add: wholeNumber_def)
  show "isDouble (numeral b)" if "numeral b \<le> (2 ^ 53 :: rat)"
    using isDouble_whole [of "numeral b"] that by (simp add: wholeNumber_def)
qed

lemma isDouble_half [simp]: "isDouble (1 / 2)"
  by code_simp

lemma num_numeral:
  "numeral a * numeral b \<le> (2 ^ 53 :: rat) \<Longrightarrow> num_mul (numeral a) (numeral b) = numeral (a * b)"
  "numeral a + numeral b \<le> (2 ^ 53 :: rat) \<Longrightarrow> num_add (numeral a) (numeral b) = numeral (a + b)"
  "numeral b \<le> (2 ^ 53 :: rat) \<Longrightarrow> num_add 0 (numeral b) = numeral b"
  using toDouble_whole [of "numeral a * numeral b"] toDouble_whole [of "numeral a + numeral b"]
    toDouble_whole [of "numeral b"]
  by (simp_all add: num_mul_def num_add_def)

lemma num_mul_whole:
  "wholeNumber (y * c) \<Longrightarrow> \<bar>y * c\<bar> \<le> 2 ^ 53 \<Longrightarrow> num_mul y c = y * c"
  unfolding num_mul_def by (rule toDouble_whole)

lemma wholeNumber_scale: "wholeNumber y \<Longrightarrow> y * of_int k = z \<Longrightarrow> wholeNumber z"
  by auto

lemma whole_products:
  shows "wholeNumber (x * 1000) \<Longrightarrow> \<bar>x\<bar> * 1000 \<le> 2 ^ 51 \<Longrightarrow> num_mul x 1000 = x * 1000"
    and "wholeNumber (x * 60) \<Longrightarrow> \<bar>x\<bar> * 60000 \<le> 2 ^ 51 \<Longrightarrow>
           num_mul (num_mul x 60) 1000 = x * 60000"
    and "wholeNumber (x * 60) \<Longrightarrow> \<bar>x\<bar> * 3600000 \<le> 2 ^ 51 \<Longrightarrow>
           num_mul (num_mul (num_mul x 60) 60) 1000 = x * 3600000"
    and "wholeNumber (x * 24) \<Longrightarrow> \<bar>x\<bar> * 86400000 \<le> 2 ^ 51 \<Longrightarrow>
           num_mul (num_mul (num_mul (num_mul x 24) 60) 60) 1000 = x * 86400000"
proof -
  show "wholeNumber (x * 1000) \<Longrightarrow> \<bar>x\<bar> * 1000 \<le> 2 ^ 51 \<Longrightarrow> num_mul x 1000 = x * 1000"
    by (rule num_mul_whole) (simp_all add: abs_mult)
  show "num_mul (num_mul x 60) 1000 = x * 60000"
    if a: "wholeNumber (x * 60)" and b: "\<bar>x\<bar> * 60000 \<le> 2 ^ 51"
  proof -
    have "num_mul x 60 = x * 60"
      using a b by (intro num_mul_whole) (simp_all add: abs_mult)
    moreover have "num_mul (x * 60) 1000 = x * 60 * 1000"
      using wholeNumber_scale [OF a, of 1000] b by (intro num_mul_whole) (simp_all add: abs_mult)
    ultimately show ?thesis by simp
  qed
  show "num_mul (num_mul (num_mul x 60) 60) 1000 = x * 3600000"
    if a: "wholeNumber (x * 60)" and b: "\<bar>x\<bar> * 3600000 \<le> 2 ^ 51"
  proof -
    have "num_mul x 60 = x * 60"
      using a b by (intro num_mul_whole) (simp_all add: abs_mult)
    moreover have "num_mul (x * 60) 60 = x * 60 * 60"
      using wholeNumber_scale [OF a, of 60] b by (intro num_mul_whole) (simp_all add: abs_mult)
    moreover have "num_mul (x * 60 * 60) 1000 = x * 60 * 60 * 1000"
      using wholeNumber_scale [OF a, of 60000] b by (intro num_mul_whole) (simp_all add: abs_mult)
    ultimately show ?thesis by simp
  qed
  show "num_mul (num_mul (num_mul (num_mul x 24) 60) 60) 1000 = x * 86400000"
    if a: "wholeNumber (x * 24)" and b: "\<bar>x\<bar> * 86400000 \<le> 2 ^ 51"
  proof -
    have "num_mul x 24 = x * 24"
      using a b by (intro num_mul_whole) (simp_all add: abs_mult)
    moreover have "num_mul (x * 24) 60 = x * 24 * 60"
      using wholeNumber_scale [OF a, of 60] b by (intro num_mul_whole) (simp_all add: abs_mult)
    moreover have "num_mul (x * 24 * 60) 60 = x * 24 * 60 * 60"
      using wholeNumber_scale [OF a, of 3600] b by (intro num_mul_whole) (simp_all add: abs_mult)
    moreover have "num_mul (x * 24 * 60 * 60) 1000 = x * 24 * 60 * 60 * 1000"
      using wholeNumber_scale [OF a, of 3600000] b
      by (intro num_mul_whole) (simp_all add: abs_mult)
    ultimately show ?thesis by simp
  qed
qed

lemma num_add_whole:
  assumes "wholeNumber a" and "wholeNumber b" and "\<bar>a\<bar> + \<bar>b\<bar> \<le> 2 ^ 53"
  shows "num_add a b = a + b"
  unfolding num_add_def using assms by (intro toDouble_whole) simp_all

lemma wholeField_amount:
  assumes "wholeField v smaller unit"
  shows "wholeNumber (amount v * smaller)" and "\<bar>amount v\<bar> * unit \<le> 2 ^ 51"
    and "truthy v \<Longrightarrow> the v = amount v" and "\<not> truthy v \<Longrightarrow> amount v = 0"
  using assms by (cases v; simp add: wholeField_def amount_def truthy_def)+

lemma computeIntervalMs_whole:
  assumes "wholeConfig config"
  shows "computeIntervalMs config = intervalDelta config"
    and "wholeNumber (intervalDelta config)"
proof -
  from assms have w: "wholeField (seconds config) 1000 1000" "wholeField (minutes config) 60 60000"
    "wholeField (hours config) 60 3600000" "wholeField (days config) 24 86400000"
    by (simp_all add: wholeConfig_def)
  let ?s = "amount (seconds config) * 1000" and ?m = "amount (minutes config) * 60000"
  let ?h = "amount (hours config) * 3600000" and ?d = "amount (days config) * 86400000"
  note s = wholeField_amount [OF w(1)] and m = wholeField_amount [OF w(2)]
    and h = wholeField_amount [OF w(3)] and d = wholeField_amount [OF w(4)]
  have b: "\<bar>?s\<bar> \<le> 2 ^ 51" "\<bar>?m\<bar> \<le> 2 ^ 51" "\<bar>?h\<bar> \<le> 2 ^ 51" "\<bar>?d\<bar> \<le> 2 ^ 51"
    using s(2) m(2) h(2) d(2) by (simp_all add: abs_mult)
  have wn: "wholeNumber ?s" "wholeNumber ?m" "wholeNumber ?h" "wholeNumber ?d"
    using s(1) wholeNumber_scale [OF m(1), of 1000] wholeNumber_scale [OF h(1), of 60000]
      wholeNumber_scale [OF d(1), of 3600000]
    by (simp_all add: mult.commute)
  show "wholeNumber (intervalDelta config)"
    unfolding intervalDelta_def using wn by simp
  have s1: "(if truthy (seconds config) then num_add 0 (num_mul (the (seconds config)) 1000) else 0)
              = ?s"
    using s(3,4) whole_products(1) [OF s(1) s(2)] num_add_whole [of 0 ?s] wn(1) b(1) by simp
  have s2: "(if truthy (minutes config)
             then num_add ?s (num_mul (num_mul (the (minutes config)) 60) 1000) else ?s)
              = ?s + ?m"
    using m(3,4) whole_products(2) [OF m(1) m(2)] num_add_whole [of ?s ?m] wn(1,2) b(1,2) by simp
  have s3: "(if truthy (hours config)
             then num_add (?s + ?m) (num_mul (num_mul (num_mul (the (hours config)) 60) 60) 1000)
             else ?s + ?m)
              = ?s + ?m + ?h"
    using h(3,4) whole_products(3) [OF h(1) h(2)] num_add_whole [of "?s + ?m" ?h] wn(1,2,3) b(1,2,3)
    by simp
  have s4: "(if truthy (days config)
             then num_add (?s + ?m + ?h)
                    (num_mul (num_mul (num_mul (num_mul (the (days config)) 24) 60) 60) 1000)
             else ?s + ?m + ?h)
              = ?s + ?m + ?h + ?d"
    using d(3,4) whole_products(4) [OF d(1) d(2)] num_add_whole [of "?s + ?m + ?h" ?d] wn b
    by simp
  show "computeIntervalMs config = intervalDelta config"
    unfolding computeIntervalMs_def Let_def s1 s2 s3 s4 intervalDelta_def ..
qed

subsection \<open>The store\<close>

lemma visible_simps [simp]:
  "fst (visible h) = hist_task_id h" "snd (visible h) = entryOfRow h"
  by (simp_all add: visible_def)

lemma insertHistory_visible:
  "map visible (fst (insertHistory tid es (rows, seq))) = map visible rows @ map (Pair tid) es"
  by (induction es arbitrary: rows seq) (simp_all add: visible_def entryOfRow_def)

lemma upsertRow_idem: "upsertRow row (upsertRow row rows) = upsertRow row rows"
proof (cases "\<exists>r \<in> set rows. task_id r = task_id row")
  case True
  then have "\<exists>r \<in> set (map (\<lambda>r. if task_id r = task_id row then row else r) rows).
               task_id r = task_id row"
    by auto
  with True show ?thesis
    by (simp add: upsertRow_def comp_def cong: if_cong)
next
  case False
  then have "map (\<lambda>r. if task_id r = task_id row then row else r) rows = rows"
    by (induction rows) auto
  with False show ?thesis
    by (simp add: upsertRow_def)
qed

lemma tasks_upsert: "tasks (upsert db t) = upsertRow (rowOfTask t) (tasks db)"
  by (simp add: upsert_def Let_def split: option.splits prod.splits)

lemma history_upsert_None:
  "history t = None \<Longrightarrow> task_history (upsert db t) = task_history db"
  by (simp add: upsert_def Let_def)

lemma history_upsert_Some:
  assumes "history t = Some es"
  shows "map visible (task_history (upsert db t)) =
     filter (\<lambda>v. fst v \<noteq> task_id t) (map visible (task_history db)) @ map (Pair (task_id t)) es"
proof -
  let ?kept = "filter (\<lambda>h. hist_task_id h \<noteq> task_id t) (task_history db)"
  have "task_history (upsert db t) = fst (insertHistory (task_id t) es (?kept, history_seq db))"
    using assms by (simp add: upsert_def Let_def split: prod.splits)
  then show ?thesis
    by (simp add: insertHistory_visible filter_map comp_def)
qed

lemma history_upsert_twice:
  "map visible (task_history (upsert (upsert db t) t)) = map visible (task_history (upsert db t))"
proof (cases "history t")
  case None
  then show ?thesis by (simp add: history_upsert_None)
next
  case (Some es)
  show ?thesis
    by (simp add: history_upsert_Some [OF Some] filter_map comp_def)
qed

lemma insort_key_map:
  "map g (insort_key (\<lambda>x. f (g x)) x xs) = insort_key f (g x) (map g xs)"
  by (induction xs) simp_all

lemma sort_key_map: "map g (sort_key (\<lambda>x. f (g x)) xs) = sort_key f (map g xs)"
  by (induction xs) (simp_all add: insort_key_map)

lemma historyOf_visible:
  "historyOf db i =
     map snd (sort_key (\<lambda>v. - run_at (snd v)) (filter (\<lambda>v. fst v = i) (map visible (task_history db))))"
proof -
  have "map visible (sort_key (\<lambda>h. - run_at (snd (visible h))) xs)
          = sort_key (\<lambda>v. - run_at (snd v)) (map visible xs)" for xs
    by (rule sort_key_map)
  moreover have "(\<lambda>h. - run_at (snd (visible h))) = (\<lambda>h. - hist_run_at h)"
    by (simp add: entryOfRow_def)
  ultimately have "map visible (sort_key (\<lambda>h. - hist_run_at h) xs)
          = sort_key (\<lambda>v. - run_at (snd v)) (map visible xs)" for xs
    by simp
  then have "map snd (sort_key (\<lambda>v. - run_at (snd v)) (map visible xs))
          = map entryOfRow (sort_key (\<lambda>h. - hist_run_at h) xs)" for xs
    by (metis (mono_tags, lifting) map_map comp_def visible_simps(2) map_eq_conv)
  then show ?thesis
    by (simp add: historyOf_def filter_map comp_def)
qed

lemma group_fold:
  "foldl pushEntry m rows i =
     (if filter (\<lambda>h. hist_task_id h = i) rows = [] then m i
      else Some (orEmpty (m i) @ map entryOfRow (filter (\<lambda>h. hist_task_id h = i) rows)))"
proof (induction rows arbitrary: m)
  case Nil
  then show ?case by simp
next
  case (Cons r rows)
  show ?case
    by (simp add: Cons.IH) (simp add: pushEntry_def orEmpty_def)
qed

lemma loadHistory_orEmpty:
  assumes "i \<in> set ids"
  shows "orEmpty (loadHistory db ids i) = historyOf db i"
proof -
  from assms have ne: "ids \<noteq> []" by auto
  have f: "filter (\<lambda>h. hist_task_id h = i) (selectHistory db ids)
         = sort_key (\<lambda>h. - hist_run_at h) (filter (\<lambda>h. hist_task_id h = i) (task_history db))"
    using assms by (simp add: selectHistory_def filter_sort conj_commute cong: conj_cong)
  show ?thesis
    using ne by (simp add: loadHistory_def group_fold f historyOf_def orEmpty_def)
qed

lemma get_historyOf:
  "get db i = map_option (\<lambda>row. mapRowToTask row (historyOf db i)) (find (\<lambda>r. task_id r = i) (tasks db))"
  by (simp add: get_def loadHistory_orEmpty split: option.splits)

lemma listAll_historyOf:
  "listAll db = map (\<lambda>row. mapRowToTask row (historyOf db (task_id row))) (sort_key created_at (tasks db))"
proof -
  have "orEmpty (loadHistory db (map task_id (sort_key created_at (tasks db))) (task_id row))
        = historyOf db (task_id row)" if "row \<in> set (tasks db)" for row
    using that by (intro loadHistory_orEmpty) simp
  then show ?thesis
    by (simp add: listAll_def Let_def)
qed

lemma historyOf_cong:
  "map visible (task_history db) = map visible (task_history db') \<Longrightarrow> historyOf db i = historyOf db' i"
  by (simp add: historyOf_visible)

lemma patchFields_applied:
  "(foldl assign r (patchFields patch))\<lparr>updated_at := Some now\<rparr> = patchedRow patch now r"
  by (cases "patch_last_run patch"; cases "patch_last_status patch";
      cases "patch_last_message patch"; cases "patch_next_run patch")
     (simp_all add: patchFields_def patchedRow_def)

lemma patchFields_Nil:
  "patchFields patch = [] \<longleftrightarrow> patch_last_run patch = None \<and> patch_last_status patch = None
     \<and> patch_last_message patch = None \<and> patch_next_run patch = None"
  by (simp add: patchFields_def split: option.splits)

subsection \<open>Fires and normalisation\<close>

lemma appendHistory_history:
  "history (appendHistory task entry) = Some (take HISTORY_LIMIT (entry # orEmpty (history task)))"
  by (simp add: appendHistory_def orEmpty_def Let_def split: option.splits)

lemma appendHistory_row [simp]:
  "status (appendHistory task entry) = status task"
  "enabled (appendHistory task entry) = enabled task"
  "trigger_type (appendHistory task entry) = trigger_type task"
  "trigger_config (appendHistory task entry) = trigger_config task"
  "next_run (appendHistory task entry) = next_run task"
  "last_status (appendHistory task entry) = last_status task"
  "last_message (appendHistory task entry) = last_message task"
  "last_run (appendHistory task entry) = last_run task"
  "task_id (appendHistory task entry) = task_id task"
  "created_at (appendHistory task entry) = created_at task"
  "updated_at (appendHistory task entry) = updated_at task"
  by (simp_all add: appendHistory_def Let_def)

lemma markRunning_simps [simp]:
  "history (markRunning task start) = history task"
  "trigger_type (markRunning task start) = trigger_type task"
  "trigger_config (markRunning task start) = trigger_config task"
  "enabled (markRunning task start) = enabled task"
  "next_run (markRunning task start) = next_run task"
  "task_id (markRunning task start) = task_id task"
  "created_at (markRunning task start) = created_at task"
  "status (markRunning task start) = S_running"
  "agent_prompt (markRunning task start) = agent_prompt task"
  by (simp_all add: markRunning_def)

lemma computeNextRun_cong:
  "enabled a = enabled b \<Longrightarrow> status a = status b \<Longrightarrow> trigger_type a = trigger_type b \<Longrightarrow>
   next_run a = next_run b \<Longrightarrow> trigger_config a = trigger_config b \<Longrightarrow>
   computeNextRun H a t = computeNextRun H b t"
  by (simp add: computeNextRun_def split: TriggerType.splits)

text \<open>\<open>computeNextRun\<close> keeps the stored instant of a task that is disabled or
  completed, and agrees with the evaluator of the specification on every other task
  whose trigger that evaluator covers.\<close>

lemma computeNextRun_kept:
  "\<not> enabled task \<or> status task = S_completed \<Longrightarrow> computeNextRun H task t = Inr (next_run task)"
  by (simp add: computeNextRun_def)

lemma plannedAfter_inFuture: "plannedAfter planned t = inFuture planned t"
  by (simp add: plannedAfter_def inFuture_def)

lemma whole_instant:
  assumes "wholeNumber x" and "\<bar>of_int t + x\<bar> \<le> 8640000000000000"
  shows "newDate (num_add (of_int t) x) = Some (t + \<lfloor>x\<rfloor>)"
proof -
  from assms(1) obtain k where k: "x = of_int k"
    by (auto simp add: wholeNumber_def)
  have "\<bar>(of_int (t + k) :: rat)\<bar> \<le> 2 ^ 53"
    using assms(2) by (simp add: k)
  then have "num_add (of_int t) x = of_int (t + k)"
    unfolding num_add_def k using toDouble_whole [of "of_int (t + k)"] by simp
  then show ?thesis
    using assms(2) by (simp add: newDate_def k)
qed

lemma computeNextRun_next_fire:
  assumes "enabled task" and "status task \<noteq> S_completed"
    and "evaluable (trigger_type task) (trigger_config task) t"
  shows "computeNextRun H task t
           = Inr (next_fire H (trigger_type task) (trigger_config task) t (next_run task))"
proof (cases "trigger_type task")
  case interval
  with assms(3) have w: "wholeConfig (trigger_config task)"
    and p: "0 < intervalDelta (trigger_config task)"
    and r: "\<bar>of_int t + intervalDelta (trigger_config task)\<bar> \<le> 8640000000000000"
    by (simp_all add: evaluable_def)
  note c = computeIntervalMs_whole [OF w]
  from c(2) obtain k where k: "intervalDelta (trigger_config task) = of_int k"
    by (auto simp add: wholeNumber_def)
  with p have "0 < k" by simp
  then have m: "max 1 \<lfloor>intervalDelta (trigger_config task) + 1 / 2\<rfloor> = k"
    unfolding k by (simp add: floor_eq_iff max_def) linarith
  show ?thesis
    using assms(1,2) interval p m whole_instant [OF c(2) r]
    by (simp add: computeNextRun_def next_fire_def Let_def c(1) toISOString_def k
        plannedAfter_inFuture)
next
  case cron
  then show ?thesis
    using assms(1,2)
    by (simp add: computeNextRun_def next_fire_def plannedAfter_inFuture split: option.splits)
next
  case date
  then show ?thesis
    using assms by (auto simp add: computeNextRun_def next_fire_def evaluable_def split: option.splits)
next
  case other_trigger
  then show ?thesis
    using assms(1,2) by (simp add: computeNextRun_def next_fire_def)
qed

lemma runTask_success_Inr:
  assumes "runTask_success H task start t_end msg = Inr done"
  shows "history done = Some (take HISTORY_LIMIT
           (\<lparr>run_at = start, status_h = H_success, message_h = Some msg\<rparr> # orEmpty (history task)))"
    and "last_status done = Some L_success" and "last_message done = Some msg"
    and "status done = (if trigger_type task = date then S_completed else S_scheduled)"
    and "trigger_type task = date \<Longrightarrow> \<not> enabled done \<and> next_run done = None"
    and "updated_at done = Some t_end"
    and "task_id done = task_id task" and "trigger_type done = trigger_type task"
  using assms
  by (auto simp add: runTask_success_def Let_def appendHistory_history
      split: if_splits sum.splits)

lemma runTask_success_Inl:
  assumes "runTask_success H task start t_end msg = Inl (err, task')"
  shows "history task' = Some (take HISTORY_LIMIT
           (\<lparr>run_at = start, status_h = H_success, message_h = Some msg\<rparr> # orEmpty (history task)))"
    and "trigger_type task \<noteq> date" and "trigger_type task' = trigger_type task"
  using assms
  by (auto simp add: runTask_success_def Let_def appendHistory_history
      split: if_splits sum.splits)

lemma runTask_failure_Inl:
  assumes "runTask_failure H task start t_catch t_end err = Inl (err', held)"
  shows "held = task\<lparr>last_status := Some L_error, last_message := Some (errorMessageOf H err),
                      status := S_error\<rparr>"
    and "computeNextRun H held t_catch = Inl err'"
  using assms
  by (auto simp add: runTask_failure_def Let_def split: sum.splits)

lemma runTask_failure_Inr:
  assumes "runTask_failure H task start t_catch t_end err = Inr failed"
  shows "history failed = Some (take HISTORY_LIMIT
           (\<lparr>run_at = start, status_h = H_error, message_h = Some (errorMessageOf H err)\<rparr>
             # orEmpty (history task)))"
    and "last_status failed = Some L_error"
    and "last_message failed = Some (errorMessageOf H err)"
    and "status failed = S_error"
    and "computeNextRun H (task\<lparr>last_status := Some L_error,
           last_message := Some (errorMessageOf H err), status := S_error\<rparr>) t_catch
         = Inr (next_run failed)"
    and "updated_at failed = Some t_end"
    and "task_id failed = task_id task" and "enabled failed = enabled task"
  using assms
  by (auto simp add: runTask_failure_def Let_def appendHistory_history
      split: if_splits sum.splits)

lemma runTask_Inr:
  assumes "runTask H db task start t_catch t_end sampling = (db', task', Inr res)"
  shows "(\<exists>msg. actionMessage H (markRunning task start) sampling = Inr msg
            \<and> runTask_success H (markRunning task start) start t_end msg = Inr task'
            \<and> res = \<lparr>success = True, message = msg\<rparr>
            \<and> db' = upsert (upsert db (markRunning task start)) task')
       \<or> (\<exists>err held. (actionMessage H (markRunning task start) sampling = Inl err
                       \<and> held = markRunning task start
                     \<or> (\<exists>msg. actionMessage H (markRunning task start) sampling = Inr msg
                           \<and> runTask_success H (markRunning task start) start t_end msg = Inl (err, held)))
            \<and> runTask_failure H held start t_catch t_end err = Inr task'
            \<and> res = \<lparr>success = False, message = errorMessageOf H err\<rparr>
            \<and> db' = upsert (upsert db (markRunning task start)) task')"
  using assms
  by (auto simp add: runTask_def Let_def split: sum.splits prod.splits)

lemma runTask_succeeds:
  assumes "actionMessage H (markRunning task start) sampling = Inr msg"
    and "runTask_success H (markRunning task start) start t_end msg = Inr fin"
  shows "runTask H db task start t_catch t_end sampling
           = (upsert (upsert db (markRunning task start)) fin, fin,
              Inr \<lparr>success = True, message = msg\<rparr>)"
  using assms by (simp add: runTask_def Let_def)

lemma stored_history_upsert:
  assumes "history t = Some es"
  shows "map entryOfRow (filter (\<lambda>h. hist_task_id h = task_id t) (task_history (upsert db t))) = es"
proof -
  have "map snd (filter (\<lambda>v. fst v = task_id t) (map visible (task_history (upsert db t)))) = es"
    by (simp add: history_upsert_Some [OF assms] filter_map comp_def)
  then show ?thesis
    by (simp add: filter_map comp_def)
qed

lemma find_upsertRow:
  "find (\<lambda>r. task_id r = task_id row) (upsertRow row rows) = Some row"
proof (cases "\<exists>r \<in> set rows. task_id r = task_id row")
  case True
  then have "find (\<lambda>r. task_id r = task_id row)
               (map (\<lambda>r. if task_id r = task_id row then row else r) rows) = Some row"
    by (induction rows) auto
  with True show ?thesis by (simp add: upsertRow_def)
next
  case False
  then have "find (\<lambda>r. task_id r = task_id row) (rows @ [row]) = Some row"
    by (induction rows) auto
  with False show ?thesis by (simp add: upsertRow_def)
qed

lemma find_upsert:
  "find (\<lambda>r. task_id r = task_id t) (tasks (upsert db t)) = Some (rowOfTask t)"
  using find_upsertRow [of "rowOfTask t" "tasks db"]
  by (simp add: tasks_upsert rowOfTask_def)

lemma decimal_0 [simp]: "decimal 0 = ''0''"
  by (simp add: decimal.simps [of 0] digit_char_def)

lemma take_limit_Cons: "take HISTORY_LIMIT (e # es) = e # take 9 es"
  by (simp add: HISTORY_LIMIT_def take_Cons')

lemma limited_history:
  assumes "h = Some (take HISTORY_LIMIT (e # older))"
  shows "\<exists>rest. h = Some (e # rest)" and "length (the h) \<le> HISTORY_LIMIT"
  using assms by (simp_all add: take_limit_Cons) (simp add: HISTORY_LIMIT_def)

lemma determineStatus_truncated:
  "determineStatus (task\<lparr>history := map_option (take HISTORY_LIMIT) (history task)\<rparr>) now
     = determineStatus task now"
proof -
  have "newestIsSuccess (map_option (take HISTORY_LIMIT) h) = newestIsSuccess h" for h
    by (cases h; cases "the h") (simp_all add: newestIsSuccess_def take_limit_Cons)
  then show ?thesis
    by (simp add: determineStatus_def)
qed

lemma normaliseTask_truncate:
  "(case history task of
      Some h \<Rightarrow> if length h > HISTORY_LIMIT
                then task\<lparr>history := Some (take HISTORY_LIMIT h)\<rparr> else task
    | None \<Rightarrow> task) = task\<lparr>history := map_option (take HISTORY_LIMIT) (history task)\<rparr>"
  by (cases "history task") auto

lemma normaliseTask_Inr:
  assumes "normaliseTask H task now now2 = Inr task'"
  shows "history task' = map_option (take HISTORY_LIMIT) (history task)"
    and "status task' = determineStatus task now"
    and "enabled task' = (enabled task \<and> \<not> (trigger_type task = date \<and> status task' = S_completed))"
    and "computeNextRun H (task\<lparr>status := status task', enabled := enabled task'\<rparr>) now
           = Inr (next_run task')"
    and "created_at task' = created_at task"
    and "updated_at task' = (case updated_at task of None \<Rightarrow> Some now2 | Some u \<Rightarrow> Some u)"
    and "task_id task' = task_id task" and "trigger_type task' = trigger_type task"
    and "trigger_config task' = trigger_config task" and "name task' = name task"
    and "mcp_arguments task' = mcp_arguments task"
    and "mcp_server task' = mcp_server task" and "mcp_tool task' = mcp_tool task"
    and "agent_prompt task' = agent_prompt task" and "last_run task' = last_run task"
    and "last_status task' = last_status task" and "last_message task' = last_message task"
proof -
  let ?t1 = "task\<lparr>history := map_option (take HISTORY_LIMIT) (history task)\<rparr>"
  let ?t2 = "?t1\<lparr>status := determineStatus task now\<rparr>"
  let ?t3 = "if trigger_type task = date \<and> determineStatus task now = S_completed
             then ?t2\<lparr>enabled := False\<rparr> else ?t2"
  from assms obtain nextRun where n: "computeNextRun H ?t3 now = Inr nextRun"
    and t: "task' = ?t3\<lparr>next_run := nextRun,
              updated_at := (case updated_at task of None \<Rightarrow> Some now2 | Some u \<Rightarrow> Some u)\<rparr>"
    unfolding normaliseTask_def normaliseTask_truncate Let_def
    by (auto simp add: determineStatus_truncated split: sum.splits if_splits)
  have c: "computeNextRun H (task\<lparr>status := status task', enabled := enabled task'\<rparr>) now
        = computeNextRun H ?t3 now"
    by (rule computeNextRun_cong) (simp_all add: t)
  show "history task' = map_option (take HISTORY_LIMIT) (history task)"
    and "status task' = determineStatus task now"
    and "created_at task' = created_at task"
    and "updated_at task' = (case updated_at task of None \<Rightarrow> Some now2 | Some u \<Rightarrow> Some u)"
    and "task_id task' = task_id task" and "trigger_type task' = trigger_type task"
    and "trigger_config task' = trigger_config task" and "name task' = name task"
    and "mcp_arguments task' = mcp_arguments task"
    and "mcp_server task' = mcp_server task" and "mcp_tool task' = mcp_tool task"
    and "agent_prompt task' = agent_prompt task" and "last_run task' = last_run task"
    and "last_status task' = last_status task" and "last_message task' = last_message task"
    by (simp_all add: t)
  show "enabled task' = (enabled task \<and> \<not> (trigger_type task = date \<and> status task' = S_completed))"
    by (simp add: t)
  show "computeNextRun H (task\<lparr>status := status task', enabled := enabled task'\<rparr>) now
           = Inr (next_run task')"
    using c n by (simp add: t)
qed

lemma normaliseTask_returns:
  assumes "\<not> enabled task \<or> trigger_type task = date \<and> determineStatus task now = S_completed"
  shows "\<exists>task'. normaliseTask H task now now2 = Inr task'"
  using assms
  unfolding normaliseTask_def normaliseTask_truncate Let_def
  by (auto simp add: determineStatus_truncated computeNextRun_def)

lemma toDouble_near:
  assumes "2 powi (- 1022) \<le> x"
  shows "\<bar>toDouble x - x\<bar> \<le> x / 2 ^ 53"
proof -
  have "0 < x"
    using assms zero_less_power_int [of "2::rat" "- 1022"] by linarith
  then show ?thesis
    using toDouble_error [of x] assms by simp
qed

lemma samplingTimeoutMs_pos: "0 < samplingTimeoutMs H"
  by (simp add: samplingTimeoutMs_def split: option.splits)

lemma Math_round_nonneg: "0 \<le> x \<Longrightarrow> 0 \<le> Math_round x"
  by (simp add: Math_round_def)

lemma timeout_seconds:
  fixes ms :: int
  assumes "0 < ms" and "ms < 2 ^ 53"
  shows "\<bar>1000 * Math_round (num_div (of_int ms) 1000) - ms\<bar> \<le> 500"
proof -
  let ?x = "of_int ms / 1000 :: rat"
  let ?N = "Math_round (toDouble ?x)"
  have one: "1 \<le> (of_int ms :: rat)"
    using assms(1) by simp
  have "(2::rat) powi (- 1022) \<le> 1 / 1000"
    by (simp add: power_int_minus_divide)
  also have "\<dots> \<le> ?x"
    using one by simp
  finally have n: "2 powi (- 1022) \<le> ?x" .
  have "(of_int ms :: rat) < of_int (2 ^ 53)"
    using assms(2) by (simp only: of_int_less_iff)
  then have "?x / 2 ^ 53 < 1 / 1000"
    by simp
  with toDouble_near [OF n] have e: "\<bar>toDouble ?x - ?x\<bar> < 1 / 1000"
    by linarith
  have r: "\<bar>of_int ?N - toDouble ?x\<bar> \<le> 1 / 2"
    unfolding Math_round_def by linarith
  from e r have "\<bar>of_int ?N - ?x\<bar> < 1 / 2 + 1 / 1000"
    by linarith
  then have "\<bar>(of_int (1000 * ?N - ms) :: rat)\<bar> < of_int 501"
    by (simp add: field_simps abs_if split: if_splits)
  then have "\<bar>1000 * ?N - ms\<bar> < 501"
    by (simp only: of_int_abs [symmetric] of_int_less_iff)
  then show ?thesis
    by (simp add: num_div_def)
qed

lemma digit_char_code: "d < 10 \<Longrightarrow> (of_char (digit_char d) :: nat) = 48 + d"
proof -
  have "list_all (\<lambda>k. (of_char (digit_char k) :: nat) = 48 + k) [0..<10]"
    by code_simp
  then show "d < 10 \<Longrightarrow> (of_char (digit_char d) :: nat) = 48 + d"
    by (simp add: list_all_iff)
qed

lemma decimalValue_snoc: "decimalValue (xs @ [c]) = 10 * decimalValue xs + (of_char c - 48)"
  by (simp add: decimalValue_def)

lemma decimal_written: "writtenInDecimal (decimal n) n"
proof (induction n rule: decimal.induct)
  case (1 n)
  show ?case
  proof (cases "n div 10 = 0")
    case True
    then have n: "n < 10" by simp
    have d: "decimal n = [digit_char n]"
      using True by (simp add: decimal.simps [of n])
    have z: "digit_char n = CHR ''0'' \<Longrightarrow> n = 0"
      using digit_char_code [OF n] by auto
    show ?thesis
      using digit_char_code [OF n] z n
      by (simp add: d writtenInDecimal_def isDigit_def decimalValue_def)
  next
    case False
    then have d: "decimal n = decimal (n div 10) @ [digit_char (n mod 10)]"
      by (simp add: decimal.simps [of n])
    from "1.IH" [OF False] have ih: "decimal (n div 10) \<noteq> []"
      "list_all isDigit (decimal (n div 10))"
      "hd (decimal (n div 10)) = CHR ''0'' \<longrightarrow> decimal (n div 10) = ''0''"
      "decimalValue (decimal (n div 10)) = n div 10"
      by (simp_all add: writtenInDecimal_def)
    have c: "(of_char (digit_char (n mod 10)) :: nat) = 48 + n mod 10"
      by (rule digit_char_code) simp
    have v: "decimalValue (decimal n) = n"
      by (simp add: d decimalValue_snoc ih(4) c)
    have "hd (decimal n) \<noteq> CHR ''0''"
    proof
      assume "hd (decimal n) = CHR ''0''"
      then have "hd (decimal (n div 10)) = CHR ''0''"
        using ih(1) by (simp add: d)
      with ih(3) have "decimal (n div 10) = ''0''" by simp
      with ih(4) have "n div 10 = 0" by (simp add: decimalValue_def)
      with False show False by simp
    qed
    then show ?thesis
      using ih(1,2) v c by (simp add: writtenInDecimal_def d isDigit_def)
  qed
qed

lemma numberToString_written:
  "0 \<le> i \<Longrightarrow> i \<le> 2 ^ 53 \<Longrightarrow> writtenInDecimal (numberToString H i) (nat i)"
  by (simp add: numberToString_def decimal_written)

lemma decimal_180: "decimal 180 = ''180''"
  by code_simp

lemma default_timeout:
  assumes "timeoutEnv H = None"
  shows "samplingTimeoutMs H = 180000"
    and "numberToString H (Math_round (num_div (samplingTimeoutMs H) 1000)) = ''180''"
proof -
  show t: "samplingTimeoutMs H = 180000"
    using assms by (simp add: samplingTimeoutMs_def)
  have "toDouble (180000 / 1000) = 180"
    using toDouble_of_int [of 180] by simp
  then have "Math_round (num_div (samplingTimeoutMs H) 1000) = 180"
    by (simp add: t num_div_def Math_round_def)
  then show "numberToString H (Math_round (num_div (samplingTimeoutMs H) 1000)) = ''180''"
    by (simp add: numberToString_def decimal_180)
qed

subsection \<open>Validation\<close>

lemma intervalField_Inr:
  assumes "intervalField H rawConfig key complaint = Inr v"
  shows "(v = None) = (map_of rawConfig key = None)"
    and "\<forall>x. v = Some x \<longrightarrow> 0 < x"
    and "fieldMs H rawConfig key multiplier = amount v * multiplier"
  using assms
  by (auto simp add: intervalField_def fieldMs_def amount_def split: option.splits sum.splits if_splits)

lemma validateIntervalConfig_Inr:
  assumes "validateIntervalConfig H rawConfig = Inr config"
  shows "\<forall>key \<in> set (map fst rawConfig). key \<in> set allowedKeys"
    and "intervalField H rawConfig ''seconds'' ''Seconds must be greater than 0'' = Inr (seconds config)"
    and "intervalField H rawConfig ''minutes'' ''Minutes must be greater than 0'' = Inr (minutes config)"
    and "intervalField H rawConfig ''hours'' ''Hours must be greater than 0'' = Inr (hours config)"
    and "intervalField H rawConfig ''days'' ''Days must be greater than 0'' = Inr (days config)"
    and "0 < intervalDelta config"
    and "expression config = None" and "run_date config = None"
    and "0 < computeIntervalMs config"
proof -
  from assms have f: "find (\<lambda>key. key \<notin> set allowedKeys) (map fst rawConfig) = None"
    by (simp add: validateIntervalConfig_def split: option.splits)
  then show "\<forall>key \<in> set (map fst rawConfig). key \<in> set allowedKeys"
    by (simp only: find_None_iff) blast
  let ?total = "\<lambda>s m h d.
     (let totalMs = 0;
          totalMs = (case s of None \<Rightarrow> totalMs | Some n \<Rightarrow> num_add totalMs (num_mul n 1000));
          totalMs = (case m of None \<Rightarrow> totalMs
                     | Some n \<Rightarrow> num_add totalMs (num_mul (num_mul n 60) 1000));
          totalMs = (case h of None \<Rightarrow> totalMs
                     | Some n \<Rightarrow> num_add totalMs (num_mul (num_mul (num_mul n 60) 60) 1000));
          totalMs = (case d of None \<Rightarrow> totalMs
                     | Some n \<Rightarrow>
                         num_add totalMs (num_mul (num_mul (num_mul (num_mul n 24) 60) 60) 1000))
      in totalMs)"
  from assms f obtain s m h d where
    r: "intervalField H rawConfig ''seconds'' ''Seconds must be greater than 0'' = Inr s"
       "intervalField H rawConfig ''minutes'' ''Minutes must be greater than 0'' = Inr m"
       "intervalField H rawConfig ''hours'' ''Hours must be greater than 0'' = Inr h"
       "intervalField H rawConfig ''days'' ''Days must be greater than 0'' = Inr d"
    and c: "config = emptyConfig\<lparr>seconds := s, minutes := m, hours := h, days := d\<rparr>"
    and p: "0 < ?total s m h d"
    by (auto simp add: validateIntervalConfig_def Let_def split: sum.splits if_splits)
  show "intervalField H rawConfig ''seconds'' ''Seconds must be greater than 0'' = Inr (seconds config)"
    and "intervalField H rawConfig ''minutes'' ''Minutes must be greater than 0'' = Inr (minutes config)"
    and "intervalField H rawConfig ''hours'' ''Hours must be greater than 0'' = Inr (hours config)"
    and "intervalField H rawConfig ''days'' ''Days must be greater than 0'' = Inr (days config)"
    and "expression config = None" and "run_date config = None"
    using r c by (simp_all add: emptyConfig_def)
  note pos = intervalField_Inr(2) [OF r(1)] intervalField_Inr(2) [OF r(2)]
    intervalField_Inr(2) [OF r(3)] intervalField_Inr(2) [OF r(4)]
  have "computeIntervalMs config = ?total s m h d"
    using pos
    by (cases s; cases m; cases h; cases d)
       (auto simp add: computeIntervalMs_def c emptyConfig_def truthy_def Let_def)
  with p show "0 < computeIntervalMs config"
    by simp
  have nn: "0 \<le> amount s" "0 \<le> amount m" "0 \<le> amount h" "0 \<le> amount d"
    using pos by (cases s; cases m; cases h; cases d; simp add: amount_def)+
  have "s \<noteq> None \<or> m \<noteq> None \<or> h \<noteq> None \<or> d \<noteq> None"
    using p by (cases s; cases m; cases h; cases d) (simp_all add: Let_def)
  then have "0 < amount s \<or> 0 < amount m \<or> 0 < amount h \<or> 0 < amount d"
    using pos by (auto simp add: amount_def)
  then have "0 < amount s * 1000 + amount m * 60000 + amount h * 3600000 + amount d * 86400000"
    using nn by linarith
  then show "0 < intervalDelta config"
    using c by (simp add: intervalDelta_def)
qed

lemma validateIntervalConfig_total:
  assumes "validateIntervalConfig H rawConfig = Inr config"
  shows "rawTotalMs H rawConfig = intervalDelta config"
  using validateIntervalConfig_Inr(2-5) [OF assms]
  by (simp add: rawTotalMs_def intervalDelta_def intervalField_Inr(3))

lemma create_task_invalid:
  assumes "triggerTypeOf (map_of args ''trigger_type'') = Some triggerType"
    and "validateTriggerConfig H now triggerType (map_of args ''trigger_config'') = Inl err"
  shows "\<exists>err'. create_task H S args now newId clock = (S, Inl err')"
  using assms by (simp add: create_task_def split: option.splits)





lemma trim_date [simp]: "trim ''2000-01-01T00:00:00Z'' = ''2000-01-01T00:00:00Z''"
  by (simp add: trim_def isWhiteSpace_def)

subsection \<open>Reads and history clearing\<close>

lemma get_Some:
  assumes "get db i = Some task"
  shows "task_id task = i" and "history task = Some (historyOf db i)" and "name task = None"
    and "\<exists>row \<in> set (tasks db). task = mapRowToTask row (historyOf db i)"
proof -
  from assms obtain row where f: "find (\<lambda>r. task_id r = i) (tasks db) = Some row"
    and t: "task = mapRowToTask row (historyOf db i)"
    by (auto simp add: get_historyOf)
  from f have "task_id row = i" and r: "row \<in> set (tasks db)"
    by (auto simp add: find_Some_iff)
  then show "task_id task = i" and "history task = Some (historyOf db i)" and "name task = None"
    by (simp_all add: t mapRowToTask_def)
  show "\<exists>row \<in> set (tasks db). task = mapRowToTask row (historyOf db i)"
    using r t by blast
qed





lemma listTasks_loop_Inr:
  "listTasks_loop H clock k ts db acc = (db', Inr us) \<Longrightarrow>
     \<exists>vs. us = acc @ vs \<and> length vs = length ts
       \<and> (\<forall>j < length ts. normaliseTask H (ts ! j) (fst (clock (k + j))) (snd (clock (k + j)))
                             = Inr (vs ! j))
       \<and> db' = foldl upsert db vs"
proof (induction ts arbitrary: k db acc)
  case Nil
  then show ?case by simp
next
  case (Cons t ts)
  from Cons.prems obtain u where n: "normaliseTask H t (fst (clock k)) (snd (clock k)) = Inr u"
    and l: "listTasks_loop H clock (Suc k) ts (upsert db u) (acc @ [u]) = (db', Inr us)"
    by (auto split: sum.splits)
  from Cons.IH [OF l] obtain vs where vs: "us = (acc @ [u]) @ vs" "length vs = length ts"
    "\<forall>j < length ts. normaliseTask H (ts ! j) (fst (clock (Suc k + j))) (snd (clock (Suc k + j)))
                             = Inr (vs ! j)"
    "db' = foldl upsert (upsert db u) vs"
    by blast
  have "\<forall>j < length (t # ts). normaliseTask H ((t # ts) ! j) (fst (clock (k + j))) (snd (clock (k + j)))
                             = Inr ((u # vs) ! j)"
    using n vs(3) by (auto simp add: nth_Cons split: nat.splits)
  then show ?case
    using vs(1,2,4) by (intro exI [of _ "u # vs"]) simp
qed








lemma storeF_eval:
  "storeF = \<lparr>tasks = [rowOfTask firedTask],
      task_history = [\<lparr>hist_id = 1, hist_task_id = ''task-1'', hist_run_at = 4000,
                        hist_status = H_error, hist_message = Some ''second''\<rparr>,
                      \<lparr>hist_id = 2, hist_task_id = ''task-1'', hist_run_at = 2000,
                        hist_status = H_success, hist_message = Some ''first''\<rparr>],
      history_seq = 2\<rparr>"
  by (simp add: storeF_def upsert_def emptyStore_def upsertRow_def firedTask_def tickTask_def
      legacyTask_def entryA_def entryB_def Let_def)

lemma get_storeF: "get storeF ''task-1'' = Some (firedTask\<lparr>name := None\<rparr>)"
  by (simp add: storeF_eval get_def loadHistory_def selectHistory_def pushEntry_def orEmpty_def
      entryOfRow_def mapRowToTask_def rowOfTask_def firedTask_def tickTask_def legacyTask_def
      entryA_def entryB_def)

lemma clearTaskHistory_effect:
  assumes "get db i = Some task"
  shows "\<exists>db' task'. clearTaskHistory db i now = (db', Inr task')
           \<and> task' = task\<lparr>history := Some [], last_message := None, last_status := None,
                          updated_at := Some now\<rparr>
           \<and> last_run task' = last_run task
           \<and> find (\<lambda>r. task_id r = i) (tasks db') = Some (rowOfTask task')
           \<and> filter (\<lambda>h. hist_task_id h = i) (task_history db') = []"
proof -
  let ?t = "task\<lparr>history := Some [], last_message := None, last_status := None,
                          updated_at := Some now\<rparr>"
  have i: "task_id ?t = i"
    using get_Some(1) [OF assms] by simp
  have "map entryOfRow (filter (\<lambda>h. hist_task_id h = task_id ?t) (task_history (upsert db ?t))) = []"
    by (rule stored_history_upsert) simp
  then have "filter (\<lambda>h. hist_task_id h = i) (task_history (upsert db ?t)) = []"
    using i by simp
  then show ?thesis
    using assms find_upsert [of ?t db] i by (simp add: clearTaskHistory_def Let_def)
qed

lemma clearHistory_effect:
  "tasks (fst (clearHistory db i now))
     = map (\<lambda>r. if task_id r = i
                then r\<lparr>last_run := None, last_status := None, last_message := None,
                       updated_at := Some now\<rparr>
                else r) (tasks db)
   \<and> filter (\<lambda>h. hist_task_id h = i) (task_history (fst (clearHistory db i now))) = []"
  by (simp add: clearHistory_def Let_def)

subsection \<open>Durations that are not whole\<close>

text \<open>With a duration that is not a whole number of milliseconds, the sum of the
  reference instant and the duration is rounded to a double before the Date cuts it to
  whole milliseconds: an interval of 1.00099995 seconds leads from 1700000000000 to the
  instant 1001 ms later, and from 0 to the instant 1000 ms later; a delay of 299.9999999
  seconds leads from 1700000000000 to the instant 300000 ms later.\<close>

lemma fractional_interval:
  "computeNextRun host0
     (legacyTask\<lparr>trigger_config := emptyConfig\<lparr>seconds := Some (toDouble (100099995 / 100000000))\<rparr>\<rparr>)
     1700000000000 = Inr (Some 1700000001001)"
  "computeNextRun host0
     (legacyTask\<lparr>trigger_config := emptyConfig\<lparr>seconds := Some (toDouble (100099995 / 100000000))\<rparr>\<rparr>)
     0 = Inr (Some 1000)"
  by code_simp+

lemma fractional_delay:
  "validateDateConfig host0 1700000000000
     [(''delay_seconds'', JNum (toDouble (2999999999 / 10000000)))]
     = Inr (emptyConfig\<lparr>run_date := Some 1700000300000\<rparr>)"
  by code_simp

section \<open>Interval tick preservation\<close>




section \<open>One-shot tasks\<close>

text \<open>
  C2 (as the code has it). After a successful fire of a date task the task is completed,
  disabled, has no next run and has the success entry of this fire first in its history;
  the store holds that row. Normalisation of a date task whose newest history entry is
  a success gives status completed (and disables the task) when the task is enabled and
  not running; a disabled task stays completed if it was completed and is paused
  otherwise; an enabled running task stays running.
\<close>

theorem date_fire_completes:
  assumes "trigger_type task = date"
  shows "(\<forall>db' task' res.
            runTask H db task start t_catch t_end sampling = (db', task', Inr res) \<and> success res \<longrightarrow>
              status task' = S_completed \<and> \<not> enabled task' \<and> next_run task' = None
              \<and> (\<exists>rest. history task' = Some (\<lparr>run_at = start, status_h = H_success,
                     message_h = Some (message res)\<rparr> # rest))
              \<and> find (\<lambda>r. task_id r = task_id task) (tasks db') = Some (rowOfTask task'))
         \<and> (newestIsSuccess (history task) \<longrightarrow>
              (enabled task \<and> status task \<noteq> S_running \<longrightarrow>
                 (\<exists>task'. normaliseTask H task now now2 = Inr task'
                     \<and> status task' = S_completed \<and> \<not> enabled task'))
              \<and> (\<not> enabled task \<longrightarrow>
                 (\<exists>task'. normaliseTask H task now now2 = Inr task'
                     \<and> status task' = (if status task = S_completed then S_completed else S_paused)))
              \<and> (enabled task \<and> status task = S_running \<longrightarrow>
                 (\<forall>task'. normaliseTask H task now now2 = Inr task' \<longrightarrow> status task' = S_running)))"
proof -
  have fire: "status task' = S_completed \<and> \<not> enabled task' \<and> next_run task' = None
              \<and> (\<exists>rest. history task' = Some (\<lparr>run_at = start, status_h = H_success,
                     message_h = Some (message res)\<rparr> # rest))
              \<and> find (\<lambda>r. task_id r = task_id task) (tasks db') = Some (rowOfTask task')"
    if r: "runTask H db task start t_catch t_end sampling = (db', task', Inr res)"
      and ok: "success res" for db' task' res
  proof -
    let ?running = "markRunning task start"
    from runTask_Inr [OF r] ok obtain msg
      where s: "runTask_success H ?running start t_end msg = Inr task'"
        and res: "res = \<lparr>success = True, message = msg\<rparr>"
        and db': "db' = upsert (upsert db ?running) task'"
      by auto
    have d: "trigger_type ?running = date"
      using assms by simp
    have h: "history task' = Some (take HISTORY_LIMIT
           (\<lparr>run_at = start, status_h = H_success, message_h = Some msg\<rparr> # orEmpty (history task)))"
      using runTask_success_Inr(1) [OF s] by simp
    have i: "task_id task' = task_id task"
      using runTask_success_Inr(7) [OF s] by simp
    show ?thesis
      using runTask_success_Inr(4) [OF s] runTask_success_Inr(5) [OF s d] limited_history(1) [OF h]
        find_upsert [of task' "upsert db ?running"] d res db' i
      by simp
  qed
  have norm1: "\<exists>task'. normaliseTask H task now now2 = Inr task'
                     \<and> status task' = S_completed \<and> \<not> enabled task'"
    if "newestIsSuccess (history task)" "enabled task" "status task \<noteq> S_running"
  proof -
    have c: "determineStatus task now = S_completed"
      using that assms by (simp add: determineStatus_def)
    obtain task' where t: "normaliseTask H task now now2 = Inr task'"
      using normaliseTask_returns [OF disjI2, OF conjI, OF assms c] by blast
    show ?thesis
      using normaliseTask_Inr(2,3) [OF t] c assms t by simp
  qed
  have norm2: "\<exists>task'. normaliseTask H task now now2 = Inr task'
                     \<and> status task' = (if status task = S_completed then S_completed else S_paused)"
    if off: "\<not> enabled task"
  proof -
    obtain task' where t: "normaliseTask H task now now2 = Inr task'"
      using normaliseTask_returns [OF disjI1, OF off] by blast
    show ?thesis
      using normaliseTask_Inr(2) [OF t] off t by (simp add: determineStatus_def)
  qed
  have norm3: "status task' = S_running"
    if "enabled task" "status task = S_running" "normaliseTask H task now now2 = Inr task'"
    for task'
    using normaliseTask_Inr(2) [OF that(3)] that(1,2) by (simp add: determineStatus_def)
  show ?thesis
    using fire norm1 norm2 norm3 by blast
qed

theorem date_fire_completes_witness:
  "trigger_type dateTask = date
   \<and> (\<exists>db' task'. runTask host0 emptyStore dateTask 8000 8001 8002 (Inl timeoutError)
          = (db', task', Inr \<lparr>success = True, message = noAction\<rparr>)
        \<and> status task' = S_completed \<and> \<not> enabled task' \<and> next_run task' = None
        \<and> (\<exists>rest. history task' = Some (\<lparr>run_at = 8000, status_h = H_success,
               message_h = Some noAction\<rparr> # rest))
        \<and> find (\<lambda>r. task_id r = ''task-2'') (tasks db') = Some (rowOfTask task'))
   \<and> newestIsSuccess (history (dateTask\<lparr>history := Some [entryA]\<rparr>))
   \<and> (\<exists>task'. normaliseTask host0 (dateTask\<lparr>history := Some [entryA]\<rparr>) 5000 5001 = Inr task'
        \<and> status task' = S_completed \<and> \<not> enabled task')"
proof -
  let ?running = "markRunning dateTask 8000"
  have a: "actionMessage host0 ?running (Inl timeoutError) = Inr noAction"
    by (simp add: actionMessage_def markRunning_def dateTask_def legacyTask_def truthyStr_def
        noAction_def)
  obtain fin where d: "runTask_success host0 ?running 8000 8002 noAction = Inr fin"
    by (simp add: runTask_success_def Let_def dateTask_def legacyTask_def)
  note r = runTask_succeeds [OF a d, of emptyStore 8001]
  have t: "trigger_type dateTask = date" "task_id dateTask = ''task-2''"
    "trigger_type (dateTask\<lparr>history := Some [entryA]\<rparr>) = date"
    "enabled (dateTask\<lparr>history := Some [entryA]\<rparr>)"
    "status (dateTask\<lparr>history := Some [entryA]\<rparr>) \<noteq> S_running"
    "newestIsSuccess (history (dateTask\<lparr>history := Some [entryA]\<rparr>))"
    by (simp_all add: dateTask_def legacyTask_def newestIsSuccess_def entryA_def)
  have fire: "status fin = S_completed \<and> \<not> enabled fin \<and> next_run fin = None
        \<and> (\<exists>rest. history fin = Some (\<lparr>run_at = 8000, status_h = H_success,
               message_h = Some noAction\<rparr> # rest))
        \<and> find (\<lambda>r. task_id r = ''task-2'') (tasks (upsert (upsert emptyStore ?running) fin))
            = Some (rowOfTask fin)"
    using date_fire_completes [OF t(1), of host0 emptyStore 8000 8001 8002 "Inl timeoutError"]
      r t(2)
    by simp
  have norm: "\<exists>task'. normaliseTask host0 (dateTask\<lparr>history := Some [entryA]\<rparr>) 5000 5001 = Inr task'
        \<and> status task' = S_completed \<and> \<not> enabled task'"
    using date_fire_completes [OF t(3), of host0 emptyStore 8000 8001 8002 "Inl timeoutError" 5000 5001]
      t(4-6)
    by blast
  show ?thesis
    using t(1,6) r fire norm by blast
qed

theorem date_fire_completes_counterexample:
  "trigger_type pausedDateTask = date
   \<and> newestIsSuccess (history pausedDateTask)
   \<and> normaliseTask host0 pausedDateTask 5000 5001 = Inr pausedDateTask
   \<and> status pausedDateTask = S_paused"
  by (simp add: pausedDateTask_def dateTask_def legacyTask_def entryA_def newestIsSuccess_def
      normaliseTask_def HISTORY_LIMIT_def determineStatus_def computeNextRun_def)

section \<open>Validation of date triggers\<close>




section \<open>Bounded history\<close>

text \<open>
  C4. \<open>appendHistory\<close> puts the new entry first and keeps the ten newest entries. So after
  every fire that returns a result, success or error, the history of the task starts
  with the entry of this fire, has at most ten entries, was cut only at its old end, and
  is what the store holds for the task. (When \<open>computeNextRun\<close> throws after the success
  entry was added, the error entry is added in front of it.) Normalisation cuts a
  stored history to its first ten entries.
\<close>

theorem history_bounded:
  "HISTORY_LIMIT = 10
   \<and> history (appendHistory task entry) = Some (take HISTORY_LIMIT (entry # orEmpty (history task)))
   \<and> (\<exists>rest. history (appendHistory task entry) = Some (entry # rest)
         \<and> length (entry # rest) \<le> HISTORY_LIMIT)
   \<and> (\<forall>db' task' res.
         runTask H db task start t_catch t_end sampling = (db', task', Inr res) \<longrightarrow>
         (\<exists>older rest.
            history task' = Some (take HISTORY_LIMIT
               (\<lparr>run_at = start, status_h = (if success res then H_success else H_error),
                 message_h = Some (message res)\<rparr> # older))
            \<and> history task' = Some (\<lparr>run_at = start,
                 status_h = (if success res then H_success else H_error),
                 message_h = Some (message res)\<rparr> # rest)
            \<and> length (the (history task')) \<le> HISTORY_LIMIT
            \<and> (older = orEmpty (history task)
                \<or> \<not> success res \<and> (\<exists>e. older = take HISTORY_LIMIT (e # orEmpty (history task))))
            \<and> map entryOfRow (filter (\<lambda>h. hist_task_id h = task_id task) (task_history db'))
                = the (history task')))
   \<and> (\<forall>task'. normaliseTask H task now now2 = Inr task' \<longrightarrow>
         history task' = map_option (take HISTORY_LIMIT) (history task)
         \<and> (\<forall>h. history task' = Some h \<longrightarrow> length h \<le> HISTORY_LIMIT))"
proof -
  have run: "\<exists>older rest.
            history task' = Some (take HISTORY_LIMIT
               (\<lparr>run_at = start, status_h = (if success res then H_success else H_error),
                 message_h = Some (message res)\<rparr> # older))
            \<and> history task' = Some (\<lparr>run_at = start,
                 status_h = (if success res then H_success else H_error),
                 message_h = Some (message res)\<rparr> # rest)
            \<and> length (the (history task')) \<le> HISTORY_LIMIT
            \<and> (older = orEmpty (history task)
                \<or> \<not> success res \<and> (\<exists>e. older = take HISTORY_LIMIT (e # orEmpty (history task))))
            \<and> map entryOfRow (filter (\<lambda>h. hist_task_id h = task_id task) (task_history db'))
                = the (history task')"
    if r: "runTask H db task start t_catch t_end sampling = (db', task', Inr res)"
    for db' task' res
  proof -
    let ?running = "markRunning task start"
    from runTask_Inr [OF r] consider
      (ok) msg where "runTask_success H ?running start t_end msg = Inr task'"
          "res = \<lparr>success = True, message = msg\<rparr>" "db' = upsert (upsert db ?running) task'"
    | (early) err where "runTask_failure H ?running start t_catch t_end err = Inr task'"
          "res = \<lparr>success = False, message = errorMessageOf H err\<rparr>"
          "db' = upsert (upsert db ?running) task'"
    | (late) err held msg where "runTask_success H ?running start t_end msg = Inl (err, held)"
          "runTask_failure H held start t_catch t_end err = Inr task'"
          "res = \<lparr>success = False, message = errorMessageOf H err\<rparr>"
          "db' = upsert (upsert db ?running) task'"
      by blast
    then show ?thesis
    proof cases
      case ok
      have h: "history task' = Some (take HISTORY_LIMIT
           (\<lparr>run_at = start, status_h = H_success, message_h = Some msg\<rparr> # orEmpty (history task)))"
        and i: "task_id task' = task_id task"
        using runTask_success_Inr(1,7) [OF ok(1)] by simp_all
      have s: "map entryOfRow (filter (\<lambda>h. hist_task_id h = task_id task) (task_history db'))
                = the (history task')"
        using stored_history_upsert [OF h, of "upsert db ?running"] ok(3) h i by simp
      show ?thesis
        using h s ok(2) limited_history [OF h] by auto
    next
      case early
      have h: "history task' = Some (take HISTORY_LIMIT
           (\<lparr>run_at = start, status_h = H_error, message_h = Some (errorMessageOf H err)\<rparr>
             # orEmpty (history task)))"
        and i: "task_id task' = task_id task"
        using runTask_failure_Inr(1,7) [OF early(1)] by simp_all
      have s: "map entryOfRow (filter (\<lambda>h. hist_task_id h = task_id task) (task_history db'))
                = the (history task')"
        using stored_history_upsert [OF h, of "upsert db ?running"] early(3) h i by simp
      show ?thesis
        using h s early(2) limited_history [OF h] by auto
    next
      case late
      have m: "history held = Some (take HISTORY_LIMIT
           (\<lparr>run_at = start, status_h = H_success, message_h = Some msg\<rparr> # orEmpty (history task)))"
        using runTask_success_Inl(1) [OF late(1)] by simp
      have hi: "task_id held = task_id task"
        using late(1) by (auto simp add: runTask_success_def Let_def split: if_splits sum.splits)
      have h: "history task' = Some (take HISTORY_LIMIT
           (\<lparr>run_at = start, status_h = H_error, message_h = Some (errorMessageOf H err)\<rparr>
             # take HISTORY_LIMIT
                 (\<lparr>run_at = start, status_h = H_success, message_h = Some msg\<rparr>
                    # orEmpty (history task))))"
        and i: "task_id task' = task_id task"
        using runTask_failure_Inr(1,7) [OF late(2)] m hi by (simp_all add: orEmpty_def)
      have s: "map entryOfRow (filter (\<lambda>h. hist_task_id h = task_id task) (task_history db'))
                = the (history task')"
        using stored_history_upsert [OF h, of "upsert db ?running"] late(4) h i by simp
      show ?thesis
        using h s late(3) limited_history [OF h] by auto
    qed
  qed
  have norm: "history task' = map_option (take HISTORY_LIMIT) (history task)
         \<and> (\<forall>h. history task' = Some h \<longrightarrow> length h \<le> HISTORY_LIMIT)"
    if "normaliseTask H task now now2 = Inr task'" for task'
    using normaliseTask_Inr(1) [OF that] by auto
  show ?thesis
    using run norm
    by (simp add: appendHistory_history) (simp add: HISTORY_LIMIT_def take_Cons')
qed

theorem history_bounded_witness:
  "length (orEmpty (history fullTask)) = 10
   \<and> (\<exists>db' task'. runTask host0 storeA fullTask 5000 6000 6001 (Inl timeoutError)
          = (db', task', Inr \<lparr>success = True, message = noAction\<rparr>)
        \<and> history task' = Some [newEntry, oldEntry 10, oldEntry 9, oldEntry 8, oldEntry 7,
             oldEntry 6, oldEntry 5, oldEntry 4, oldEntry 3, oldEntry 2]
        \<and> map entryOfRow (filter (\<lambda>h. hist_task_id h = ''task-1'') (task_history db'))
            = [newEntry, oldEntry 10, oldEntry 9, oldEntry 8, oldEntry 7,
               oldEntry 6, oldEntry 5, oldEntry 4, oldEntry 3, oldEntry 2])
   \<and> (\<exists>task'. normaliseTask host0 (fullTask\<lparr>history := Some (newEntry # orEmpty (history fullTask))\<rparr>) 5000 5001 = Inr task'
        \<and> history task' = Some [newEntry, oldEntry 10, oldEntry 9, oldEntry 8, oldEntry 7,
             oldEntry 6, oldEntry 5, oldEntry 4, oldEntry 3, oldEntry 2])"
proof -
  let ?running = "markRunning fullTask 5000"
  let ?long = "fullTask\<lparr>history := Some (newEntry # orEmpty (history fullTask))\<rparr>"
  have a: "actionMessage host0 ?running (Inl timeoutError) = Inr noAction"
    by (simp add: actionMessage_def markRunning_def fullTask_def tickTask_def legacyTask_def
        truthyStr_def noAction_def)
  obtain fin where d: "runTask_success host0 ?running 5000 6001 noAction = Inr fin"
    by (simp add: runTask_success_def Let_def fullTask_def tickTask_def legacyTask_def
        markRunning_def computeNextRun_def plannedAfter_def appendHistory_def)
  note r = runTask_succeeds [OF a d, of storeA 6000]
  have h: "orEmpty (history fullTask) = [oldEntry 10, oldEntry 9, oldEntry 8, oldEntry 7,
     oldEntry 6, oldEntry 5, oldEntry 4, oldEntry 3, oldEntry 2, oldEntry 1]"
    "task_id fullTask = ''task-1''"
    by (simp_all add: fullTask_def tickTask_def legacyTask_def orEmpty_def)
  obtain task' where n: "normaliseTask host0 ?long 5000 5001 = Inr task'"
    by (simp add: normaliseTask_def Let_def fullTask_def tickTask_def legacyTask_def
        computeNextRun_def plannedAfter_def determineStatus_def HISTORY_LIMIT_def orEmpty_def)
  note b = history_bounded [of fullTask newEntry host0 storeA 5000 6000 6001 "Inl timeoutError" 5000 5001]
  have fire: "history fin = Some [newEntry, oldEntry 10, oldEntry 9, oldEntry 8, oldEntry 7,
             oldEntry 6, oldEntry 5, oldEntry 4, oldEntry 3, oldEntry 2]
        \<and> map entryOfRow (filter (\<lambda>h. hist_task_id h = ''task-1'')
              (task_history (upsert (upsert storeA ?running) fin)))
            = [newEntry, oldEntry 10, oldEntry 9, oldEntry 8, oldEntry 7,
               oldEntry 6, oldEntry 5, oldEntry 4, oldEntry 3, oldEntry 2]"
    using b r h by (auto simp add: HISTORY_LIMIT_def newEntry_def)
  have norm: "history task' = Some [newEntry, oldEntry 10, oldEntry 9, oldEntry 8, oldEntry 7,
             oldEntry 6, oldEntry 5, oldEntry 4, oldEntry 3, oldEntry 2]"
    using history_bounded [of ?long newEntry host0 storeA 5000 6000 6001 "Inl timeoutError" 5000 5001]
      n h
    by (simp add: HISTORY_LIMIT_def)
  show ?thesis
    using h(1) r fire n norm by auto
qed

section \<open>Sampling timeout\<close>

text \<open>
  C5. When the sampling request of a fire is rejected with the timeout code, and the
  recomputation of \<open>next_run\<close> in the catch block returns, the fire fails: the result
  and \<open>last_message\<close> are exactly "Sampling request timed out after Ns", where N is the
  timeout in milliseconds divided by 1000 (a division of doubles) and rounded to the
  nearest integer. N is not negative; for a timeout of a whole number of milliseconds
  below \<open>2 ^ 53\<close> it differs from the exact quotient by at most one half; it is printed
  in decimal digits up to \<open>2 ^ 53\<close>; without a timeout in the environment it is 180.
  \<open>last_status\<close> and \<open>status\<close> are error, an error entry is put first in the history,
  and the row is written to the store. \<open>next_run\<close> is the recomputed value: for an
  enabled task whose trigger the evaluator of the specification covers, it is what that
  evaluator gives for the instant of the failure; a disabled task keeps its stored
  \<open>next_run\<close>.
\<close>

theorem timeout_fire:
  assumes "truthyStr (agent_prompt task)" and "mcpServer H"
    and "sampling = Inl err" and "err_code err = Some (- 32001)"
    and "computeNextRun H (task\<lparr>status := S_error\<rparr>) t_catch = Inr nextRun"
  shows "\<exists>db' task' N text.
           runTask H db task start t_catch t_end sampling
             = (db', task', Inr \<lparr>success = False,
                                 message = ''Sampling request timed out after '' @ text @ ''s''\<rparr>)
           \<and> N = Math_round (num_div (samplingTimeoutMs H) 1000) \<and> 0 \<le> N
           \<and> (\<forall>ms. samplingTimeoutMs H = of_int ms \<and> ms < 2 ^ 53 \<longrightarrow> \<bar>1000 * N - ms\<bar> \<le> 500)
           \<and> text = numberToString H N
           \<and> (N \<le> 2 ^ 53 \<longrightarrow> writtenInDecimal text (nat N))
           \<and> (timeoutEnv H = None \<longrightarrow> text = ''180'')
           \<and> last_status task' = Some L_error \<and> status task' = S_error
           \<and> last_message task' = Some (''Sampling request timed out after '' @ text @ ''s'')
           \<and> history task' = Some (take HISTORY_LIMIT
                (\<lparr>run_at = start, status_h = H_error,
                  message_h = Some (''Sampling request timed out after '' @ text @ ''s'')\<rparr>
                 # orEmpty (history task)))
           \<and> next_run task' = nextRun
           \<and> (enabled task \<and> evaluable (trigger_type task) (trigger_config task) t_catch \<longrightarrow>
                nextRun = next_fire H (trigger_type task) (trigger_config task) t_catch (next_run task))
           \<and> (\<not> enabled task \<longrightarrow> nextRun = next_run task)
           \<and> db' = upsert (upsert db (markRunning task start)) task'
           \<and> find (\<lambda>r. task_id r = task_id task) (tasks db') = Some (rowOfTask task')"
proof -
  let ?running = "markRunning task start"
  let ?N = "Math_round (num_div (samplingTimeoutMs H) 1000)"
  let ?text = "numberToString H ?N"
  let ?msg = "''Sampling request timed out after '' @ ?text @ ''s''"
  have act: "actionMessage H ?running sampling = Inl err"
    using assms(1-3) by (simp add: actionMessage_def)
  have msg: "errorMessageOf H err = ?msg"
    using assms(4) by (simp add: errorMessageOf_def Let_def)
  have "computeNextRun H (?running\<lparr>last_status := Some L_error, last_message := Some ?msg,
           status := S_error\<rparr>) t_catch = computeNextRun H (task\<lparr>status := S_error\<rparr>) t_catch"
    by (rule computeNextRun_cong) (simp_all add: markRunning_def)
  then have nxt: "computeNextRun H (?running\<lparr>last_status := Some L_error,
           last_message := Some ?msg, status := S_error\<rparr>) t_catch = Inr nextRun"
    using assms(5) by simp
  obtain failed where failed: "runTask_failure H ?running start t_catch t_end err = Inr failed"
    using nxt msg by (simp add: runTask_failure_def Let_def)
  have run: "runTask H db task start t_catch t_end sampling
        = (upsert (upsert db ?running) failed, failed, Inr \<lparr>success = False, message = ?msg\<rparr>)"
    using act failed msg by (simp add: runTask_def Let_def)
  have nr: "next_run failed = nextRun"
    using runTask_failure_Inr(5) [OF failed] nxt msg by simp
  have tid: "task_id failed = task_id task"
    using runTask_failure_Inr(7) [OF failed] by simp
  have pos: "0 \<le> ?N"
    using samplingTimeoutMs_pos [of H]
    by (intro Math_round_nonneg) (simp add: num_div_def toDouble_nonneg)
  have near: "\<bar>1000 * ?N - ms\<bar> \<le> 500" if "samplingTimeoutMs H = of_int ms" and "ms < 2 ^ 53" for ms
  proof -
    have "0 < ms"
      using samplingTimeoutMs_pos [of H] that(1) by simp
    from timeout_seconds [OF this that(2)] show ?thesis
      by (simp add: that(1))
  qed
  have digits: "writtenInDecimal ?text (nat ?N)" if "?N \<le> 2 ^ 53"
    using numberToString_written [OF pos that] .
  have fire: "nextRun = next_fire H (trigger_type task) (trigger_config task) t_catch (next_run task)"
    if "enabled task" and "evaluable (trigger_type task) (trigger_config task) t_catch"
    using computeNextRun_next_fire [of "task\<lparr>status := S_error\<rparr>" t_catch H] that assms(5)
    by simp
  have kept: "nextRun = next_run task" if "\<not> enabled task"
    using computeNextRun_kept [of "task\<lparr>status := S_error\<rparr>" H t_catch] that assms(5) by simp
  have facts: "last_status failed = Some L_error" "status failed = S_error"
    "last_message failed = Some ?msg"
    "history failed = Some (take HISTORY_LIMIT
        (\<lparr>run_at = start, status_h = H_error, message_h = Some ?msg\<rparr> # orEmpty (history task)))"
    using runTask_failure_Inr(1-4) [OF failed] msg by simp_all
  have stored: "find (\<lambda>r. task_id r = task_id task) (tasks (upsert (upsert db ?running) failed))
      = Some (rowOfTask failed)"
    using find_upsert [of failed "upsert db ?running"] tid by simp
  show ?thesis
    using run pos near digits default_timeout(2) [of H] facts nr fire kept stored
    by (intro exI [of _ "upsert (upsert db ?running) failed"] exI [of _ failed]
        exI [of _ ?N] exI [of _ ?text]) blast
qed

theorem timeout_fire_witness:
  "truthyStr (agent_prompt promptTask) \<and> mcpServer host0 \<and> err_code timeoutError = Some (- 32001)
   \<and> samplingTimeoutMs host0 = 50 \<and> samplingTimeoutMs host1 = 180000
   \<and> next_run promptTask = Some 9000
   \<and> computeNextRun host0 (promptTask\<lparr>status := S_error\<rparr>) 9500 = Inr (Some 39500)
   \<and> (\<exists>db' task'. runTask host0 storeA promptTask 9400 9500 9501 (Inl timeoutError)
          = (db', task', Inr \<lparr>success = False, message = ''Sampling request timed out after 0s''\<rparr>)
        \<and> last_status task' = Some L_error
        \<and> last_message task' = Some ''Sampling request timed out after 0s''
        \<and> history task' = Some [\<lparr>run_at = 9400, status_h = H_error,
                                  message_h = Some ''Sampling request timed out after 0s''\<rparr>]
        \<and> next_run task' = Some 39500
        \<and> map next_run (tasks db') = [Some 39500]
        \<and> map last_message (tasks db') = [Some ''Sampling request timed out after 0s''])
   \<and> (\<exists>db' task'. runTask host1 storeA promptTask 9400 9500 9501 (Inl timeoutError)
          = (db', task', Inr \<lparr>success = False, message = ''Sampling request timed out after 180s''\<rparr>)
        \<and> last_message task' = Some ''Sampling request timed out after 180s'')"
proof -
  have h: "truthyStr (agent_prompt promptTask)" "mcpServer host0" "mcpServer host1"
      "err_code timeoutError = Some (- 32001)" "next_run promptTask = Some 9000"
      "enabled promptTask" "orEmpty (history promptTask) = []" "task_id promptTask = ''task-1''"
      "timeoutEnv host1 = None"
    by (simp_all add: promptTask_def tickTask_def legacyTask_def host0_def host1_def
        timeoutError_def truthyStr_def orEmpty_def)
  have t: "samplingTimeoutMs host0 = 50" "samplingTimeoutMs host1 = 180000"
    by (simp_all add: samplingTimeoutMs_def host0_def host1_def)
  have e: "evaluable (trigger_type promptTask) (trigger_config promptTask) 9500"
    "next_fire H (trigger_type promptTask) (trigger_config promptTask) 9500 (next_run promptTask)
       = Some 39500" for H
    by (simp_all add: evaluable_def next_fire_def inFuture_def promptTask_def tickTask_def
        legacyTask_def emptyConfig_def wholeConfig_def wholeField_def wholeNumber_def
        intervalDelta_def amount_def)
  have c: "computeNextRun H (promptTask\<lparr>status := S_error\<rparr>) 9500 = Inr (Some 39500)" for H
    using computeNextRun_next_fire [of "promptTask\<lparr>status := S_error\<rparr>" 9500 H] h(6) e
    by simp
  have n: "Math_round (num_div (samplingTimeoutMs host0) 1000) = 0"
    unfolding t by code_simp
  have m: "numberToString host0 0 = ''0''"
    by (simp add: numberToString_def)
  have rows: "tasks (upsert (upsert storeA (markRunning promptTask 9400)) task')
                = [rowOfTask task']"
    if "find (\<lambda>r. task_id r = task_id promptTask)
          (tasks (upsert (upsert storeA (markRunning promptTask 9400)) task')) = Some (rowOfTask task')"
    for task'
    using that
    by (simp add: tasks_upsert storeA_def upsertRow_def rowOfTask_def markRunning_def
        promptTask_def tickTask_def legacyTask_def split: if_splits)
  have first: "\<exists>db' task'. runTask host0 storeA promptTask 9400 9500 9501 (Inl timeoutError)
          = (db', task', Inr \<lparr>success = False, message = ''Sampling request timed out after 0s''\<rparr>)
        \<and> last_status task' = Some L_error
        \<and> last_message task' = Some ''Sampling request timed out after 0s''
        \<and> history task' = Some [\<lparr>run_at = 9400, status_h = H_error,
                                  message_h = Some ''Sampling request timed out after 0s''\<rparr>]
        \<and> next_run task' = Some 39500
        \<and> map next_run (tasks db') = [Some 39500]
        \<and> map last_message (tasks db') = [Some ''Sampling request timed out after 0s'']"
  proof -
    from timeout_fire [OF h(1) h(2) refl h(4) c, of storeA 9400 9501]
    obtain db' task' N shown where
      r: "runTask host0 storeA promptTask 9400 9500 9501 (Inl timeoutError)
            = (db', task', Inr \<lparr>success = False,
                                message = ''Sampling request timed out after '' @ shown @ ''s''\<rparr>)"
        "N = Math_round (num_div (samplingTimeoutMs host0) 1000)" "shown = numberToString host0 N"
        "last_status task' = Some L_error"
        "last_message task' = Some (''Sampling request timed out after '' @ shown @ ''s'')"
        "history task' = Some (take HISTORY_LIMIT
                (\<lparr>run_at = 9400, status_h = H_error,
                  message_h = Some (''Sampling request timed out after '' @ shown @ ''s'')\<rparr>
                 # orEmpty (history promptTask)))"
        "next_run task' = Some 39500"
        "db' = upsert (upsert storeA (markRunning promptTask 9400)) task'"
        "find (\<lambda>r. task_id r = task_id promptTask) (tasks db') = Some (rowOfTask task')"
      by blast
    have shown: "shown = ''0''"
      using r(2,3) n m by simp
    have "tasks db' = [rowOfTask task']"
      using rows [of task'] r(8,9) by simp
    then have "map next_run (tasks db') = [next_run task']"
      "map last_message (tasks db') = [last_message task']"
      by (simp_all add: rowOfTask_def)
    then show ?thesis
      using r(1,4-7) shown h(7) by (simp add: HISTORY_LIMIT_def)
  qed
  have second: "\<exists>db' task'. runTask host1 storeA promptTask 9400 9500 9501 (Inl timeoutError)
          = (db', task', Inr \<lparr>success = False, message = ''Sampling request timed out after 180s''\<rparr>)
        \<and> last_message task' = Some ''Sampling request timed out after 180s''"
    using timeout_fire [OF h(1) h(3) refl h(4) c, of storeA 9400 9501] h(9)
    by auto
  show ?thesis
    using h(1,2,4,5) t c [of host0] first second by blast
qed

section \<open>Validation of interval triggers\<close>

text \<open>
  C6. \<open>create_task\<close> with trigger type interval and an object (or array) as
  configuration fails, with the scheduler and its store unchanged, whenever the object
  has a key other than seconds, minutes, hours and days, and whenever its fields do not
  sum to a positive duration. When the validation of the configuration succeeds, every
  field of the result is a positive number, the result has exactly the fields that were
  given, and its duration is positive.
\<close>

theorem interval_validation:
  assumes "map_of args ''trigger_type'' = Some (JStr ''interval'')"
    and "map_of args ''trigger_config'' = Some raw"
    and "propertiesOf raw = Some rawConfig"
  shows "((\<exists>key \<in> set (map fst rawConfig). key \<notin> set allowedKeys) \<or> rawTotalMs H rawConfig \<le> 0
            \<longrightarrow> (\<exists>err. create_task H S args now newId clock = (S, Inl err)))
         \<and> (\<forall>config. validateIntervalConfig H rawConfig = Inr config \<longrightarrow>
               (\<forall>x. seconds config = Some x \<longrightarrow> 0 < x)
               \<and> (\<forall>x. minutes config = Some x \<longrightarrow> 0 < x)
               \<and> (\<forall>x. hours config = Some x \<longrightarrow> 0 < x)
               \<and> (\<forall>x. days config = Some x \<longrightarrow> 0 < x)
               \<and> (seconds config = None) = (map_of rawConfig ''seconds'' = None)
               \<and> (minutes config = None) = (map_of rawConfig ''minutes'' = None)
               \<and> (hours config = None) = (map_of rawConfig ''hours'' = None)
               \<and> (days config = None) = (map_of rawConfig ''days'' = None)
               \<and> 0 < computeIntervalMs config)"
proof -
  have ok: "(\<forall>x. seconds config = Some x \<longrightarrow> 0 < x)
               \<and> (\<forall>x. minutes config = Some x \<longrightarrow> 0 < x)
               \<and> (\<forall>x. hours config = Some x \<longrightarrow> 0 < x)
               \<and> (\<forall>x. days config = Some x \<longrightarrow> 0 < x)
               \<and> (seconds config = None) = (map_of rawConfig ''seconds'' = None)
               \<and> (minutes config = None) = (map_of rawConfig ''minutes'' = None)
               \<and> (hours config = None) = (map_of rawConfig ''hours'' = None)
               \<and> (days config = None) = (map_of rawConfig ''days'' = None)
               \<and> 0 < computeIntervalMs config"
    if v: "validateIntervalConfig H rawConfig = Inr config" for config
  proof -
    note f = validateIntervalConfig_Inr(2-5) [OF v]
    show ?thesis
      using intervalField_Inr(1,2) [OF f(1)] intervalField_Inr(1,2) [OF f(2)]
        intervalField_Inr(1,2) [OF f(3)] intervalField_Inr(1,2) [OF f(4)]
        validateIntervalConfig_Inr(9) [OF v]
      by simp
  qed
  have bad: "\<exists>err. validateIntervalConfig H rawConfig = Inl err"
    if "(\<exists>key \<in> set (map fst rawConfig). key \<notin> set allowedKeys) \<or> rawTotalMs H rawConfig \<le> 0"
  proof (cases "validateIntervalConfig H rawConfig")
    case (Inl err)
    then show ?thesis by blast
  next
    case (Inr config)
    then show ?thesis
      using that validateIntervalConfig_Inr(1,6) [OF Inr] validateIntervalConfig_total [OF Inr]
      by auto
  qed
  have t: "triggerTypeOf (map_of args ''trigger_type'') = Some interval"
    using assms(1) by (simp add: triggerTypeOf_def)
  have v: "validateTriggerConfig H now interval (map_of args ''trigger_config'')
             = validateIntervalConfig H rawConfig"
    using assms(2,3) by (simp add: validateTriggerConfig_def)
  have "\<exists>err. create_task H S args now newId clock = (S, Inl err)"
    if "(\<exists>key \<in> set (map fst rawConfig). key \<notin> set allowedKeys) \<or> rawTotalMs H rawConfig \<le> 0"
  proof -
    from bad [OF that] obtain err where "validateIntervalConfig H rawConfig = Inl err" ..
    then show ?thesis
      using create_task_invalid [OF t, of H now err S newId clock] v by simp
  qed
  then show ?thesis
    using ok by blast
qed

theorem interval_validation_witness:
  "map_of badArgs ''trigger_type'' = Some (JStr ''interval'')
   \<and> (\<exists>err. create_task host0 sched0 badArgs 5000 ''task-9'' (\<lambda>k. 5000) = (sched0, Inl err))
   \<and> rawTotalMs host0 [(''seconds'', JNum 0)] \<le> 0
   \<and> (\<exists>err. create_task host0 sched0 zeroArgs 5000 ''task-9'' (\<lambda>k. 5000) = (sched0, Inl err))
   \<and> validateIntervalConfig host0 goodConfig
       = Inr (emptyConfig\<lparr>seconds := Some 5, minutes := Some 5\<rparr>)
   \<and> 0 < computeIntervalMs (emptyConfig\<lparr>seconds := Some 5, minutes := Some 5\<rparr>)"
proof -
  have b: "map_of badArgs ''trigger_type'' = Some (JStr ''interval'')"
    "map_of badArgs ''trigger_config'' = Some (JObj [(''seconds'', JNum 5), (''weeks'', JNum 1)])"
    "\<exists>key \<in> set (map fst [(''seconds'', JNum 5), (''weeks'', JNum 1 :: json)]). key \<notin> set allowedKeys"
    by (simp_all add: badArgs_def allowedKeys_def)
  have z: "map_of zeroArgs ''trigger_type'' = Some (JStr ''interval'')"
    "map_of zeroArgs ''trigger_config'' = Some (JObj [(''seconds'', JNum 0)])"
    "rawTotalMs host0 [(''seconds'', JNum 0)] \<le> 0"
    by (simp_all add: zeroArgs_def rawTotalMs_def fieldMs_def ensureNumber_def)
  have g: "map_of goodArgs ''trigger_type'' = Some (JStr ''interval'')"
    "map_of goodArgs ''trigger_config'' = Some (JObj goodConfig)"
    by (simp_all add: goodArgs_def)
  have v: "validateIntervalConfig host0 goodConfig
       = Inr (emptyConfig\<lparr>seconds := Some 5, minutes := Some 5\<rparr>)"
    by (simp add: validateIntervalConfig_def goodConfig_def allowedKeys_def intervalField_def
        ensureNumber_def host0_def trim_def isWhiteSpace_def num_numeral emptyConfig_def)
  have p: "propertiesOf (JObj kvs) = Some kvs" for kvs
    by (simp add: propertiesOf_def)
  show ?thesis
    using interval_validation [OF b(1,2) p, of host0 sched0 5000 "''task-9''" "\<lambda>k. 5000"]
      interval_validation [OF z(1,2) p, of host0 sched0 5000 "''task-9''" "\<lambda>k. 5000"]
      interval_validation [OF g p, of host0 sched0 5000 "''task-9''" "\<lambda>k. 5000"]
      b z v
    by simp
qed

section \<open>Partial status updates\<close>

text \<open>
  C7 (as the code has it). \<open>updateStatus\<close> with a patch that holds at least one of
  \<open>last_run\<close>, \<open>last_status\<close>, \<open>last_message\<close>, \<open>next_run\<close> writes exactly the fields
  present in the patch to the row of the given id, stamps its \<open>updated_at\<close> with the
  current instant, and keeps every other column, every other row and the history table.
  With an empty patch it returns before any statement runs: the store, \<open>updated_at\<close>
  included, stays as it was.
\<close>

theorem updateStatus_frame:
  "updateStatus db i patch now =
     (if patch_last_run patch = None \<and> patch_last_status patch = None
         \<and> patch_last_message patch = None \<and> patch_next_run patch = None
      then db
      else db\<lparr>tasks := map (\<lambda>r. if task_id r = i then patchedRow patch now r else r) (tasks db)\<rparr>)
   \<and> trigger_type (patchedRow patch now r) = trigger_type r
   \<and> trigger_config (patchedRow patch now r) = trigger_config r
   \<and> agent_prompt (patchedRow patch now r) = agent_prompt r
   \<and> enabled (patchedRow patch now r) = enabled r
   \<and> status (patchedRow patch now r) = status r
   \<and> created_at (patchedRow patch now r) = created_at r
   \<and> task_id (patchedRow patch now r) = task_id r"
  by (simp add: updateStatus_def Let_def patchFields_applied patchFields_Nil patchedRow_def
      cong: if_cong)

theorem updateStatus_empty_patch_counterexample:
  "patchFields emptyPatch = []
   \<and> map task_id (tasks storeA) = [''task-1'']
   \<and> map updated_at (tasks storeA) = [Some 1000]
   \<and> map updated_at (tasks (updateStatus storeA ''task-1'' emptyPatch 7000)) = [Some 1000]
   \<and> map updated_at (tasks (updateStatus storeA ''task-1'' emptyPatch 7000)) \<noteq> [Some 7000]"
  by (simp add: patchFields_def emptyPatch_def updateStatus_def storeA_def rowOfTask_def
      tickTask_def legacyTask_def)

section \<open>Clearing the history\<close>

text \<open>
  C8. The store's \<open>clearHistory\<close> sets \<open>last_run\<close> to NULL together with \<open>last_status\<close>
  and \<open>last_message\<close>. The operation behind tool \<^verbatim>\<open>clear_task_history\<close> is the
  scheduler's \<open>clearTaskHistory\<close>, which does not call it: on a task that has run (here
  \<open>last_run = 4000\<close>) it removes the history rows, clears \<open>last_status\<close> and
  \<open>last_message\<close> and stamps \<open>updated_at\<close>, and \<open>last_run\<close> stays 4000.
\<close>

theorem clearTaskHistory_keeps_last_run:
  "map last_run (tasks storeF) = [Some 4000]
   \<and> map last_run (tasks (fst (clearTaskHistory storeF ''task-1'' 7000))) = [Some 4000]
   \<and> map last_status (tasks (fst (clearTaskHistory storeF ''task-1'' 7000))) = [None]
   \<and> map last_message (tasks (fst (clearTaskHistory storeF ''task-1'' 7000))) = [None]
   \<and> map updated_at (tasks (fst (clearTaskHistory storeF ''task-1'' 7000))) = [Some 7000]
   \<and> task_history (fst (clearTaskHistory storeF ''task-1'' 7000)) = []
   \<and> map last_run (tasks (fst (clearHistory storeF ''task-1'' 7000))) = [None]"
  by (simp add: clearTaskHistory_def get_storeF Let_def tasks_upsert)
     (simp add: storeF_eval upsertRow_def rowOfTask_def firedTask_def tickTask_def
      legacyTask_def upsert_def clearHistory_def Let_def)

section \<open>Idempotence of upsert\<close>

text \<open>
  C9. Applying \<open>upsert\<close> twice with the same task record, with or without a history
  array, leaves a store that \<open>get\<close> (at every id) and \<open>list\<close> cannot tell from the store
  after one application, although the second application hands out fresh history keys.
  When a history array is given, the history rows of the task are afterwards exactly
  that sequence, in insertion order, whatever was stored before.
\<close>

theorem upsert_idempotent:
  "get (upsert (upsert db t) t) i = get (upsert db t) i
   \<and> listAll (upsert (upsert db t) t) = listAll (upsert db t)
   \<and> (\<forall>es. history t = Some es \<longrightarrow>
        map entryOfRow (filter (\<lambda>h. hist_task_id h = task_id t) (task_history (upsert db t))) = es)"
proof -
  have h: "historyOf (upsert (upsert db t) t) j = historyOf (upsert db t) j" for j
    by (rule historyOf_cong) (rule history_upsert_twice)
  have t: "tasks (upsert (upsert db t) t) = tasks (upsert db t)"
    by (simp add: tasks_upsert upsertRow_idem)
  show ?thesis
    by (simp add: get_historyOf listAll_historyOf h t stored_history_upsert)
qed

theorem upsert_idempotent_witness:
  "history firedTask = Some [entryB, entryA]
   \<and> map entryOfRow (filter (\<lambda>h. hist_task_id h = task_id firedTask)
        (task_history (upsert storeA firedTask))) = [entryB, entryA]
   \<and> get (upsert (upsert storeA firedTask) firedTask) ''task-1''
       = get (upsert storeA firedTask) ''task-1''
   \<and> map hist_id (task_history (upsert storeA firedTask)) = [1, 2]
   \<and> map hist_id (task_history (upsert (upsert storeA firedTask) firedTask)) = [3, 4]"
  using upsert_idempotent [of storeA firedTask "''task-1''"]
  by (simp add: firedTask_def tickTask_def legacyTask_def storeA_def upsert_def Let_def)

section \<open>Reads write back\<close>




end
